theory Spec2Isabelle
  imports Main "HOL-Library.Sublist" "HOL-Library.AList"
begin

section \<open>Python values shared by the two modules\<close>

text \<open>
  A Python \<open>str\<close> is a list of characters; a \<^typ>\<open>char\<close> stands for a code point below
  256. Times are integers: a \<open>datetime\<close> is a number of microseconds since the epoch and a
  \<open>timedelta\<close> a number of microseconds.
\<close>

type_synonym user_id = string
type_synonym time = int
type_synonym kernel = nat
  \<comment> \<open>the identity of one \<open>jupyter_client.KernelManager\<close> object\<close>

text \<open>
  The exceptions of the two modules. \<open>QuotaExceeded\<close> is the \<open>RuntimeError\<close> of
  \<open>kernel_manager.py\<close> line 84 (user id and limit are the two holes of its message),
  \<open>BackendStartTimeout\<close> the \<open>RuntimeError\<close> of line 110, \<open>BackendError\<close> an \<open>Exception\<close>
  raised by a call on a backend object (its text), \<open>OSError\<close> the one raised by
  \<open>Path.mkdir\<close> (its text). \<open>CancelledError\<close> and \<open>SystemExit\<close> derive from
  \<open>BaseException\<close> only, every other one from \<open>Exception\<close>.
\<close>

datatype exn =
    KeyError
  | AttributeError string
  | QuotaExceeded user_id int
  | BackendStartTimeout
  | BackendError string
  | OSError string
  | CancelledError
  | SystemExit

fun is_Exception :: "exn \<Rightarrow> bool" where
  "is_Exception CancelledError = False"
| "is_Exception SystemExit = False"
| "is_Exception _ = True"

datatype 'a outcome = Returned 'a | Raised exn

text \<open>\<open>str(e)\<close> for an exception \<open>e\<close>, up to the punctuation of the library's messages.\<close>

fun exn_text :: "exn \<Rightarrow> string" where
  "exn_text KeyError = []"
| "exn_text (AttributeError a) = ''object has no attribute '' @ a"
| "exn_text (QuotaExceeded u n) = ''User '' @ u @ '' has reached maximum kernel limit''"
| "exn_text BackendStartTimeout = ''Kernel failed to start within 60 seconds''"
| "exn_text (BackendError x) = x"
| "exn_text (OSError x) = x"
| "exn_text CancelledError = []"
| "exn_text SystemExit = []"

subsection \<open>Strings\<close>

text \<open>\<open>str.isspace\<close> on the code points below 256.\<close>

definition isspace :: "char \<Rightarrow> bool" where
  "isspace c = (of_char c \<in> {9, 10, 11, 12, 13, 28, 29, 30, 31, 32, 133, 160 :: nat})"

definition strip :: "string \<Rightarrow> string" where
  "strip s = rev (dropWhile isspace (rev (dropWhile isspace s)))"

fun join :: "string \<Rightarrow> string list \<Rightarrow> string" where
  "join sep [] = []"
| "join sep [x] = x"
| "join sep (x # y # ys) = x @ sep @ join sep (y # ys)"

section \<open>code\_executor.py: validate\_code\<close>

text \<open>
  The builtin \<open>compile(code, '<string>', 'exec')\<close> is a parameter of the model: it returns
  a code object, raises \<open>SyntaxError\<close>, or raises another \<open>Exception\<close> (each with its text).
\<close>

datatype compiled = CompileOk | SyntaxErr string | OtherErr string

definition dangerous_patterns :: "string list" where
  "dangerous_patterns = [''os.system'', ''subprocess.'', ''__import__'', ''eval('', ''exec('']"

text \<open>The \<open>for pattern in dangerous_patterns\<close> loop: the first pattern found, if any.\<close>

fun first_match :: "string list \<Rightarrow> string \<Rightarrow> string option" where
  "first_match [] code = None"
| "first_match (pattern # ps) code =
     (if sublist pattern code then Some pattern else first_match ps code)"

definition validate_code :: "(string \<Rightarrow> compiled) \<Rightarrow> string \<Rightarrow> bool \<times> string" where
  "validate_code compile code =
     (if code = [] \<or> strip code = [] then (False, ''Code cannot be empty'')
      else case first_match dangerous_patterns code of
        Some pattern \<Rightarrow> (False, ''Potentially dangerous operation detected: '' @ pattern)
      | None \<Rightarrow>
         (case compile code of
            CompileOk \<Rightarrow> (True, '''')
          | SyntaxErr e \<Rightarrow> (False, ''Syntax error: '' @ e)
          | OtherErr e \<Rightarrow> (False, ''Validation error: '' @ e)))"

section \<open>code\_executor.py: execute\_code\<close>

text \<open>
  The two classes of the \<open>datetime\<close> module that the source uses. \<open>total_seconds\<close> is a
  method of \<open>timedelta\<close>; a \<open>datetime\<close> object has no attribute of that name, and the
  attribute access raises \<open>AttributeError\<close>. The seconds are counted in microseconds here.
\<close>

datatype pyobj = Datetime time | Timedelta time

fun total_seconds :: "pyobj \<Rightarrow> time outcome" where
  "total_seconds (Timedelta d) = Returned d"
| "total_seconds (Datetime t) = Raised (AttributeError ''total_seconds'')"

text \<open>
  The messages of the iopub channel, by \<open>msg_type\<close>: the \<open>text\<close> of a \<open>stream\<close>, the
  \<open>traceback\<close> of an \<open>error\<close>, the \<open>text/plain\<close> entry of an \<open>execute_result\<close>, the
  \<open>image/png\<close> and \<open>text/plain\<close> entries of a \<open>display_data\<close>, the \<open>execution_state\<close> of a
  \<open>status\<close>. A poll returns a message or raises an exception (its \<open>str\<close>).
\<close>

datatype message =
    Stream string
  | Error "string list"
  | ExecuteResult "string option"
  | DisplayData "string option" "string option"
  | Status string
  | OtherMessage

datatype poll = Message message | PollFailed string

text \<open>
  The client of one kernel: the clock that \<open>datetime.now()\<close> reads, the answers that the
  coming calls of \<open>get_iopub_msg(timeout=1)\<close> will get, each with the time the call takes
  (once they are used up, a call waits its full second and raises \<open>queue.Empty\<close>, whose
  \<open>str\<close> is empty), the code submitted so far, and the lines logged.
\<close>

record channel =
  clock :: time
  inbox :: "(time \<times> poll) list"
  submitted :: "string list"
  logged :: "string list"

definition get_iopub_msg :: "channel \<Rightarrow> poll \<times> channel" where
  "get_iopub_msg ch =
     (case inbox ch of
        [] \<Rightarrow> (PollFailed [], ch\<lparr>clock := clock ch + 1000000\<rparr>)
      | (d, p) # rest \<Rightarrow> (p, ch\<lparr>clock := clock ch + d, inbox := rest\<rparr>))"

fun str_nat :: "nat \<Rightarrow> string" where
  "str_nat n =
     (if n < 10 then [char_of (48 + n)] else str_nat (n div 10) @ [char_of (48 + n mod 10)])"

declare str_nat.simps [simp del]

definition str_int :: "int \<Rightarrow> string" where
  "str_int i = (if i < 0 then CHR ''-'' # str_nat (nat (- i)) else str_nat (nat i))"

text \<open>The local variables of lines 46 to 50.\<close>

record collected =
  output_parts :: "string list"
  error_parts :: "string list"
  result_v :: "string option"
  plots_v :: "string list"
  success_v :: bool

text \<open>Lines 68 to 91, one message: the updated variables, and whether the loop breaks.\<close>

fun on_message :: "message \<Rightarrow> collected \<Rightarrow> bool \<times> collected" where
  "on_message (Stream text) acc = (False, acc\<lparr>output_parts := output_parts acc @ [text]\<rparr>)"
| "on_message (Error traceback) acc =
     (False, acc\<lparr>error_parts := error_parts acc @ [join [CHR 0x0A] traceback],
                 success_v := False\<rparr>)"
| "on_message (ExecuteResult plain) acc =
     (False, acc\<lparr>result_v := Some (case plain of None \<Rightarrow> [] | Some t \<Rightarrow> t)\<rparr>)"
| "on_message (DisplayData (Some png) plain) acc =
     (False, acc\<lparr>plots_v := plots_v acc @ [png]\<rparr>)"
| "on_message (DisplayData None (Some t)) acc =
     (False, acc\<lparr>output_parts := output_parts acc @ [t]\<rparr>)"
| "on_message (DisplayData None None) acc = (False, acc)"
| "on_message (Status st) acc = (st = ''idle'', acc)"
| "on_message OtherMessage acc = (False, acc)"

text \<open>
  The \<open>while True\<close> loop of lines 56 to 96. It ends by a \<open>break\<close> (\<open>None\<close>) or by an
  exception that leaves the inner \<open>try\<close> (\<open>Some\<close>), with the variables as they are then.
  Line 58 makes the call of line 53 again, on a \<open>datetime\<close>: an iteration ends there
  before it polls, so no iteration is followed by another, which is the termination
  argument below.
\<close>

function collect ::
  "time \<Rightarrow> int \<Rightarrow> collected \<Rightarrow> channel \<Rightarrow> exn option \<times> collected \<times> channel" where
  "collect deadline timeout_s acc ch =
     (case total_seconds (Datetime (clock ch)) of
        Raised x \<Rightarrow> (Some x, acc, ch)
      | Returned t \<Rightarrow>
          if t > deadline
          then (None,
                acc\<lparr>error_parts := error_parts acc
                       @ [''Execution timeout ('' @ str_int timeout_s @ ''s)''],
                    success_v := False\<rparr>,
                ch)
          else
            (case get_iopub_msg ch of
               (PollFailed x, ch') \<Rightarrow>
                 collect deadline timeout_s acc
                   (if sublist ''Timeout'' x then ch'
                    else ch'\<lparr>logged := logged ch' @ [''Error receiving message: '' @ x]\<rparr>)
             | (Message m, ch') \<Rightarrow>
                 (case on_message m acc of
                    (True, acc') \<Rightarrow> (None, acc', ch')
                  | (False, acc') \<Rightarrow> collect deadline timeout_s acc' ch')))"
  by pat_completeness auto
termination
  by (relation "{}") auto

declare collect.simps [simp del]

text \<open>The dictionary returned; its key \<open>output\<close> is the field \<open>output_str\<close>.\<close>

record exec_result =
  success :: bool
  output_str :: string
  error :: string
  result :: "string option"
  plots :: "string list"
  execution_time :: time

text \<open>Lines 103 to 112.\<close>

definition assemble :: "time \<Rightarrow> collected \<Rightarrow> channel \<Rightarrow> exec_result outcome \<times> channel" where
  "assemble start_time acc ch =
     (case total_seconds (Timedelta (clock ch - start_time)) of
        Raised x \<Rightarrow> (Raised x, ch)
      | Returned d \<Rightarrow>
          (Returned \<lparr>success = success_v acc,
                     output_str = strip (join [CHR 0x0A] (output_parts acc)),
                     error = strip (join [CHR 0x0A] (error_parts acc)),
                     result = result_v acc,
                     plots = plots_v acc,
                     execution_time = d\<rparr>, ch))"

text \<open>
  Line 53 stands before the \<open>try\<close> of line 55: what it raises leaves the function. The
  handler of line 98 catches the \<open>Exception\<close>s that leave the loop.
\<close>

definition execute_code :: "channel \<Rightarrow> string \<Rightarrow> int \<Rightarrow> exec_result outcome \<times> channel" where
  "execute_code ch code timeout_s =
     (let start_time = clock ch;
          ch1 = ch\<lparr>submitted := submitted ch @ [code]\<rparr>
      in case total_seconds (Datetime (clock ch1)) of
           Raised x \<Rightarrow> (Raised x, ch1)
         | Returned t \<Rightarrow>
             (case collect (t + timeout_s * 1000000) timeout_s
                     \<lparr>output_parts = [], error_parts = [], result_v = None,
                      plots_v = [], success_v = True\<rparr> ch1 of
                (None, acc, ch2) \<Rightarrow> assemble start_time acc ch2
              | (Some x, acc, ch2) \<Rightarrow>
                  if is_Exception x
                  then assemble start_time
                         (acc\<lparr>error_parts := error_parts acc
                                @ [''Unexpected error: '' @ exn_text x],
                              success_v := False\<rparr>)
                         (ch2\<lparr>logged := logged ch2
                                @ [''Unexpected error during execution: '' @ exn_text x]\<rparr>)
                  else (Raised x, ch2)))"

section \<open>kernel\_manager.py: the session table\<close>

text \<open>
  What the manager does to the outside world, in order: the lines it logs and the calls it
  makes on backend objects and on the file system, each recorded when the call is made,
  whether it returns or raises. \<open>ShutdownKernel km now\<close> is \<open>km.shutdown_kernel(now=now)\<close>;
  \<open>StartChannels km\<close> is lines 100 and 101; \<open>ExecuteInit km\<close> is the bootstrap block of
  lines 112 to 145: \<open>kc.execute(init_code)\<close>, then a polling loop that runs for at most
  \<open>init_timeout\<close> seconds, swallows every exception of its polls and reads or writes no
  field of the manager.
\<close>

datatype event =
    LogInfo string
  | LogError string
  | Mkdir string
  | StartKernel kernel string
  | StartChannels kernel
  | ShutdownKernel kernel bool
  | ExecuteInit kernel

text \<open>
  The \<open>asyncio.Task\<close> that runs \<open>_periodic_cleanup\<close>: created and not yet run, suspended in
  \<open>asyncio.sleep\<close>, returned, or cancelled.
\<close>

datatype task = Pending | Sleeping | Finished | Cancelled

text \<open>
  The three dictionaries keep their insertion order; \<open>effects\<close> is the trace of events so
  far.
\<close>

record manager =
  kernels :: "(user_id \<times> kernel) list"
  last_activity :: "(user_id \<times> time) list"
  working_dirs :: "(user_id \<times> string) list"
  timeout :: time
  max_kernels_per_user :: int
  cleanup_task :: "task option"
  effects :: "event list"

text \<open>
  The wait of lines 104 to 107: \<open>wait_for_ready\<close> returns within the 60 seconds, the 60
  seconds pass (\<open>asyncio.TimeoutError\<close>), or \<open>wait_for_ready\<close> raises an exception of its
  own (a \<open>RuntimeError\<close> when the kernel died), with its text.
\<close>

datatype waited = Ready | TimedOut | WaitRaised string

text \<open>
  What the outside world answers during one call: the readings of \<open>datetime.now()\<close> (lines
  71, 73, 149 and 172); the text of the exception, if any, that is raised by \<open>mkdir\<close> (line
  89), by \<open>start_kernel\<close> (line 97), by \<open>client()\<close> or \<open>start_channels\<close> (lines 100 and
  101), by \<open>kc.execute\<close> (line 132) and by \<open>shutdown_kernel\<close> on a given backend; the object
  that \<open>jupyter_client.KernelManager(...)\<close> builds (line 93); and the outcome of the wait.
\<close>

record env =
  now_check :: time
  now_refresh :: time
  mkdir_error :: "string option"
  new_kernel :: kernel
  start_error :: "string option"
  channels_error :: "string option"
  wait_for_ready :: waited
  execute_error :: "string option"
  now_stored :: time
  now_sweep :: time
  shutdown_error :: "kernel \<Rightarrow> string option"

definition KernelManager_init :: "int \<Rightarrow> int \<Rightarrow> manager" where
  "KernelManager_init timeout_minutes max_kernels =
     \<lparr>kernels = [], last_activity = [], working_dirs = [],
      timeout = timeout_minutes * 60000000,
      max_kernels_per_user = max_kernels,
      cleanup_task = None, effects = []\<rparr>"

definition emit :: "event \<Rightarrow> manager \<Rightarrow> manager" where
  "emit ev s = s\<lparr>effects := effects s @ [ev]\<rparr>"

text \<open>\<open>k in d\<close> for a dictionary \<open>d\<close>.\<close>

definition has_key :: "('k \<times> 'v) list \<Rightarrow> 'k \<Rightarrow> bool" where
  "has_key d k = (k \<in> set (map fst d))"

definition start_cleanup_task :: "manager \<Rightarrow> manager" where
  "start_cleanup_task s =
     (if cleanup_task s = None then s\<lparr>cleanup_task := Some Pending\<rparr> else s)"

text \<open>The event loop runs the new task up to its first \<open>await\<close>, the sleep of line 44.\<close>

definition run_cleanup_task :: "manager \<Rightarrow> manager" where
  "run_cleanup_task s =
     (if cleanup_task s = Some Pending then s\<lparr>cleanup_task := Some Sleeping\<rparr> else s)"

subsection \<open>cleanup\_kernel (lines 155 to 168)\<close>

text \<open>
  The \<open>finally\<close> block runs whether \<open>shutdown_kernel\<close> returned or raised; its two
  unguarded \<open>del\<close> statements raise \<open>KeyError\<close> on a missing key.
\<close>

definition cleanup_kernel ::
  "(kernel \<Rightarrow> string option) \<Rightarrow> manager \<Rightarrow> user_id \<Rightarrow> unit outcome \<times> manager" where
  "cleanup_kernel sd s user_id =
     (case map_of (kernels s) user_id of
        None \<Rightarrow> (Returned (), s)
      | Some km \<Rightarrow>
          let s1 = emit (ShutdownKernel km True) s;
              s2 = (case sd km of
                      None \<Rightarrow> emit (LogInfo (''Shut down kernel for user '' @ user_id)) s1
                    | Some x \<Rightarrow>
                        emit (LogError (''Error shutting down kernel for user '' @ user_id
                                         @ '': '' @ x)) s1);
              s3 = s2\<lparr>kernels := AList.delete user_id (kernels s2)\<rparr>
          in if \<not> has_key (last_activity s3) user_id then (Raised KeyError, s3)
             else
               let s4 = s3\<lparr>last_activity := AList.delete user_id (last_activity s3)\<rparr>
               in if has_key (working_dirs s4) user_id
                  then (Returned (), s4\<lparr>working_dirs := AList.delete user_id (working_dirs s4)\<rparr>)
                  else (Returned (), s4))"

subsection \<open>get\_or\_create\_kernel (lines 69 to 153)\<close>

text \<open>
  Lines 69 to 79: the existing entry is returned with its timestamp refreshed
  (\<open>Returned (Some km)\<close>), or cleaned up when expired; \<open>Returned None\<close> goes on to create.
\<close>

definition reuse_or_expire ::
  "env \<Rightarrow> manager \<Rightarrow> user_id \<Rightarrow> kernel option outcome \<times> manager" where
  "reuse_or_expire e s user_id =
     (case map_of (kernels s) user_id of
        None \<Rightarrow> (Returned None, s)
      | Some km \<Rightarrow>
          (case map_of (last_activity s) user_id of
             None \<Rightarrow> (Raised KeyError, s)
           | Some la \<Rightarrow>
               if now_check e - la < timeout s
               then (Returned (Some km),
                     emit (LogInfo (''Reusing kernel for user '' @ user_id))
                       (s\<lparr>last_activity :=
                            AList.update user_id (now_refresh e) (last_activity s)\<rparr>))
               else
                 (case cleanup_kernel (shutdown_error e)
                         (emit (LogInfo (''Kernel expired for user '' @ user_id
                                          @ '', creating new one'')) s) user_id of
                    (Returned _, s') \<Rightarrow> (Returned None, s')
                  | (Raised x, s') \<Rightarrow> (Raised x, s'))))"

text \<open>Line 82: \<open>sum(1 for uid in self.kernels.keys() if uid.startswith(user_id))\<close>.\<close>

definition user_kernel_count :: "manager \<Rightarrow> user_id \<Rightarrow> int" where
  "user_kernel_count s user_id =
     int (length (filter (\<lambda>uid. prefix user_id uid) (map fst (kernels s))))"

text \<open>
  The call up to its only suspension point, the \<open>await\<close> of line 104: it is over
  (\<open>Done\<close>), or a backend has been started and the call waits for it (\<open>Awaiting\<close>).
\<close>

datatype begun = Done "kernel outcome" | Awaiting kernel

text \<open>
  Lines 88 to 101. None of the calls stands in a \<open>try\<close>: the exception of \<open>mkdir\<close>, of
  \<open>start_kernel\<close> or of the opening of the channels leaves the function.
\<close>

definition start_backend ::
  "env \<Rightarrow> manager \<Rightarrow> user_id \<Rightarrow> string \<Rightarrow> begun \<times> manager" where
  "start_backend e s user_id working_dir =
     (let s1 = emit (Mkdir working_dir) s
      in case mkdir_error e of
           Some x \<Rightarrow> (Done (Raised (OSError x)), s1)
         | None \<Rightarrow>
             let km = new_kernel e;
                 s2 = emit (StartKernel km working_dir)
                        (emit (LogInfo (''Creating new kernel for user '' @ user_id
                                        @ '' in '' @ working_dir)) s1)
             in case start_error e of
                  Some x \<Rightarrow> (Done (Raised (BackendError x)), s2)
                | None \<Rightarrow>
                    let s3 = emit (StartChannels km) s2
                    in case channels_error e of
                         Some x \<Rightarrow> (Done (Raised (BackendError x)), s3)
                       | None \<Rightarrow> (Awaiting km, s3))"

definition get_or_create_begin ::
  "env \<Rightarrow> manager \<Rightarrow> user_id \<Rightarrow> string \<Rightarrow> begun \<times> manager" where
  "get_or_create_begin e s user_id working_dir =
     (case reuse_or_expire e s user_id of
        (Raised x, s1) \<Rightarrow> (Done (Raised x), s1)
      | (Returned (Some km), s1) \<Rightarrow> (Done (Returned km), s1)
      | (Returned None, s1) \<Rightarrow>
          if user_kernel_count s1 user_id \<ge> max_kernels_per_user s1
          then (Done (Raised (QuotaExceeded user_id (max_kernels_per_user s1))), s1)
          else start_backend e s1 user_id working_dir)"

text \<open>
  Lines 103 to 153, after the wait. On \<open>asyncio.TimeoutError\<close> the backend is shut down and
  the \<open>RuntimeError\<close> raised (an exception of \<open>shutdown_kernel\<close> itself leaves the handler in
  its place). Another exception of the wait is not caught by line 108 and leaves the
  function, with no shutdown call. Otherwise the bootstrap block runs (an exception of
  \<open>kc.execute\<close> leaves the function too) and the three entries are stored.
\<close>

definition get_or_create_finish ::
  "env \<Rightarrow> manager \<Rightarrow> user_id \<Rightarrow> string \<Rightarrow> kernel \<Rightarrow> kernel outcome \<times> manager" where
  "get_or_create_finish e s user_id working_dir km =
     (case wait_for_ready e of
        TimedOut \<Rightarrow>
          (case shutdown_error e km of
             None \<Rightarrow> (Raised BackendStartTimeout, emit (ShutdownKernel km False) s)
           | Some x \<Rightarrow> (Raised (BackendError x), emit (ShutdownKernel km False) s))
      | WaitRaised x \<Rightarrow> (Raised (BackendError x), s)
      | Ready \<Rightarrow>
          let s1 = emit (ExecuteInit km) s
          in case execute_error e of
               Some x \<Rightarrow> (Raised (BackendError x), s1)
             | None \<Rightarrow>
                 let s2 = s1\<lparr>kernels := AList.update user_id km (kernels s1),
                              last_activity :=
                                AList.update user_id (now_stored e) (last_activity s1),
                              working_dirs :=
                                AList.update user_id working_dir (working_dirs s1)\<rparr>
                 in (Returned km,
                     emit (LogInfo (''Kernel created successfully for user '' @ user_id))
                       s2))"

definition get_or_create_kernel ::
  "env \<Rightarrow> manager \<Rightarrow> user_id \<Rightarrow> string \<Rightarrow> kernel outcome \<times> manager" where
  "get_or_create_kernel e s user_id working_dir =
     (case get_or_create_begin e s user_id working_dir of
        (Done r, s1) \<Rightarrow> (r, s1)
      | (Awaiting km, s1) \<Rightarrow> get_or_create_finish e s1 user_id working_dir km)"

subsection \<open>cleanup\_expired\_kernels (lines 170 to 180)\<close>

fun cleanup_expired_loop ::
  "(kernel \<Rightarrow> string option) \<Rightarrow> user_id list \<Rightarrow> manager \<Rightarrow> unit outcome \<times> manager" where
  "cleanup_expired_loop sd [] s = (Returned (), s)"
| "cleanup_expired_loop sd (user_id # rest) s =
     (case cleanup_kernel sd
             (emit (LogInfo (''Cleaning up expired kernel for user '' @ user_id)) s) user_id of
        (Returned _, s') \<Rightarrow> cleanup_expired_loop sd rest s'
      | (Raised x, s') \<Rightarrow> (Raised x, s'))"

definition expired_users :: "time \<Rightarrow> manager \<Rightarrow> user_id list" where
  "expired_users now s =
     map fst (filter (\<lambda>(user_id, last_time). now - last_time \<ge> timeout s) (last_activity s))"

definition cleanup_expired_kernels :: "env \<Rightarrow> manager \<Rightarrow> unit outcome \<times> manager" where
  "cleanup_expired_kernels e s =
     cleanup_expired_loop (shutdown_error e) (expired_users (now_sweep e) s) s"

subsection \<open>\_periodic\_cleanup (lines 40 to 49)\<close>

text \<open>
  The loop is suspended in \<open>asyncio.sleep(60)\<close> between two sweeps. What happens to it
  there: the sleep ends (\<open>Wake\<close>, with what the world answers during the sweep), or the task
  is cancelled and \<open>CancelledError\<close> is raised at the \<open>await\<close> (\<open>Cancel\<close>). After a finite
  list of such events the loop is suspended again (\<open>AtSleep\<close>), has left through \<open>break\<close>
  (\<open>Exited\<close>), or has been left by an exception that no handler caught (\<open>Propagated\<close>).
  The sweep is a parameter, \<open>self.cleanup_expired_kernels\<close> in the source.
\<close>

datatype wake = Wake env | Cancel

datatype loop_status = AtSleep | Exited | Propagated exn

fun periodic_cleanup_with ::
  "(env \<Rightarrow> manager \<Rightarrow> unit outcome \<times> manager) \<Rightarrow> wake list \<Rightarrow> manager
     \<Rightarrow> loop_status \<times> manager" where
  "periodic_cleanup_with sweep [] s = (AtSleep, s)"
| "periodic_cleanup_with sweep (Cancel # ws) s = (Exited, s)"
| "periodic_cleanup_with sweep (Wake e # ws) s =
     (case sweep e s of
        (Returned _, s') \<Rightarrow> periodic_cleanup_with sweep ws s'
      | (Raised x, s') \<Rightarrow>
          if x = CancelledError then (Exited, s')
          else if is_Exception x
          then periodic_cleanup_with sweep ws
                 (emit (LogError (''Error in cleanup task: '' @ exn_text x)) s')
          else (Propagated x, s'))"

definition periodic_cleanup :: "wake list \<Rightarrow> manager \<Rightarrow> loop_status \<times> manager" where
  "periodic_cleanup = periodic_cleanup_with cleanup_expired_kernels"

subsection \<open>shutdown\_all (lines 182 to 194)\<close>

fun shutdown_loop ::
  "(kernel \<Rightarrow> string option) \<Rightarrow> user_id list \<Rightarrow> manager \<Rightarrow> unit outcome \<times> manager" where
  "shutdown_loop sd [] s = (Returned (), s)"
| "shutdown_loop sd (user_id # rest) s =
     (case cleanup_kernel sd s user_id of
        (Returned _, s') \<Rightarrow> shutdown_loop sd rest s'
      | (Raised x, s') \<Rightarrow> (Raised x, s'))"

text \<open>
  Lines 189 to 194, \<open>cancel()\<close> then \<open>await\<close> on the task. A task that has not run yet is
  cancelled before its body starts, and the \<open>await\<close> raises \<open>CancelledError\<close>, caught at line
  193. A task suspended in its sleep gets \<open>Cancel\<close>: the \<open>await\<close> returns when the loop has
  exited, raises what the loop propagated, and never returns (\<open>None\<close>) if the loop were to
  sleep again. On a task that is over \<open>cancel()\<close> does nothing.
\<close>

definition cancel_and_await :: "task \<Rightarrow> manager \<Rightarrow> unit outcome option \<times> manager" where
  "cancel_and_await t s =
     (case t of
        Pending \<Rightarrow> (Some (Returned ()), s\<lparr>cleanup_task := Some Cancelled\<rparr>)
      | Sleeping \<Rightarrow>
          (case periodic_cleanup [Cancel] s of
             (Exited, s') \<Rightarrow> (Some (Returned ()), s'\<lparr>cleanup_task := Some Finished\<rparr>)
           | (Propagated x, s') \<Rightarrow>
               if x = CancelledError
               then (Some (Returned ()), s'\<lparr>cleanup_task := Some Cancelled\<rparr>)
               else (Some (Raised x), s'\<lparr>cleanup_task := Some Finished\<rparr>)
           | (AtSleep, s') \<Rightarrow> (None, s'))
      | Finished \<Rightarrow> (Some (Returned ()), s)
      | Cancelled \<Rightarrow> (Some (Returned ()), s))"

definition shutdown_all ::
  "(kernel \<Rightarrow> string option) \<Rightarrow> manager \<Rightarrow> unit outcome option \<times> manager" where
  "shutdown_all sd s =
     (let s0 = emit (LogInfo ''Shutting down all kernels...'') s;
          user_ids = map fst (kernels s0)
      in case shutdown_loop sd user_ids s0 of
           (Raised x, s1) \<Rightarrow> (Some (Raised x), s1)
         | (Returned _, s1) \<Rightarrow>
             (case cleanup_task s1 of
                None \<Rightarrow> (Some (Returned ()), s1)
              | Some t \<Rightarrow> cancel_and_await t s1))"

section \<open>States of the session table\<close>

text \<open>
  The owners of a dictionary's entries, and the structure of the three dictionaries: the
  same owners hold a backend and a timestamp, and only they hold a working directory.
\<close>

definition owners :: "(user_id \<times> 'v) list \<Rightarrow> user_id set" where
  "owners d = set (map fst d)"

definition table_inv :: "manager \<Rightarrow> bool" where
  "table_inv s \<longleftrightarrow>
     owners (kernels s) = owners (last_activity s)
     \<and> owners (working_dirs s) \<subseteq> owners (kernels s)"

text \<open>The number of sessions registered under one owner.\<close>

definition sessions_of :: "manager \<Rightarrow> user_id \<Rightarrow> nat" where
  "sessions_of s u = length (filter (\<lambda>uid. uid = u) (map fst (kernels s)))"

text \<open>
  The states of a manager under any interleaving of its coroutines on one event loop. A
  coroutine runs without interruption between two suspension points, and
  \<open>get_or_create_kernel\<close> has one, at line 104: its two halves are two steps, and the
  second half of a call may run in any later state.
\<close>

inductive reachable :: "manager \<Rightarrow> bool" where
  r_init: "reachable (KernelManager_init timeout_minutes max_kernels)"
| r_start: "reachable s \<Longrightarrow> reachable (start_cleanup_task s)"
| r_run: "reachable s \<Longrightarrow> reachable (run_cleanup_task s)"
| r_begin: "reachable s \<Longrightarrow> reachable (snd (get_or_create_begin e s u wd))"
| r_finish: "reachable s \<Longrightarrow> reachable (snd (get_or_create_finish e s u wd km))"
| r_destroy: "reachable s \<Longrightarrow> reachable (snd (cleanup_kernel sd s u))"
| r_sweep: "reachable s \<Longrightarrow> reachable (snd (cleanup_expired_kernels e s))"
| r_reaper: "reachable s \<Longrightarrow> reachable (snd (periodic_cleanup ws s))"
| r_shutdown: "reachable s \<Longrightarrow> reachable (snd (shutdown_all sd s))"

section \<open>Notions used in the statements\<close>

text \<open>
  Names for the events of one path through the source, for a world in which the three
  calls that start a backend return (\<open>starts\<close>), for the property that the table holds one
  session per owner, and four concrete inputs: a table with one session of \<open>alice\<close> last
  used at time 0 under an idle timeout of one minute; a world, at a given time, in which
  no call raises and the backend becomes ready or the wait runs into its deadline; a table
  of limit 1 with that session of \<open>alice\<close> and a later one of \<open>alice2\<close>; and the table
  reached from an empty manager of limit 1 by one call for \<open>alice2\<close>.
\<close>

definition shutdown_log :: "(kernel \<Rightarrow> string option) \<Rightarrow> user_id \<Rightarrow> kernel \<Rightarrow> event" where
  "shutdown_log sd u km =
     (case sd km of
        None \<Rightarrow> LogInfo (''Shut down kernel for user '' @ u)
      | Some x \<Rightarrow> LogError (''Error shutting down kernel for user '' @ u @ '': '' @ x))"

definition one_per_owner :: "manager \<Rightarrow> bool" where
  "one_per_owner s \<longleftrightarrow> distinct (map fst (kernels s))"

definition expired_log :: "user_id \<Rightarrow> event" where
  "expired_log u = LogInfo (''Kernel expired for user '' @ u @ '', creating new one'')"

definition create_events :: "user_id \<Rightarrow> string \<Rightarrow> kernel \<Rightarrow> event list" where
  "create_events u wd km =
     [Mkdir wd, LogInfo (''Creating new kernel for user '' @ u @ '' in '' @ wd),
      StartKernel km wd, StartChannels km]"

definition starts :: "env \<Rightarrow> bool" where
  "starts e \<longleftrightarrow> mkdir_error e = None \<and> start_error e = None \<and> channels_error e = None"

definition ex_table :: manager where
  "ex_table =
     \<lparr>kernels = [(''alice'', 1)], last_activity = [(''alice'', 0)],
      working_dirs = [(''alice'', ''/tmp/alice'')],
      timeout = 60000000, max_kernels_per_user = 2,
      cleanup_task = Some Sleeping, effects = []\<rparr>"

definition ex_env :: "time \<Rightarrow> bool \<Rightarrow> env" where
  "ex_env now ready =
     \<lparr>now_check = now, now_refresh = now + 1, mkdir_error = None, new_kernel = 2,
      start_error = None, channels_error = None,
      wait_for_ready = (if ready then Ready else TimedOut), execute_error = None,
      now_stored = now + 2, now_sweep = now, shutdown_error = (\<lambda>_. None)\<rparr>"

definition created_log :: "user_id \<Rightarrow> event" where
  "created_log u = LogInfo (''Kernel created successfully for user '' @ u)"

definition ex_two :: manager where
  "ex_two =
     \<lparr>kernels = [(''alice'', 1), (''alice2'', 3)],
      last_activity = [(''alice'', 0), (''alice2'', 100000000)],
      working_dirs = [(''alice'', ''/tmp/alice''), (''alice2'', ''/tmp/alice2'')],
      timeout = 60000000, max_kernels_per_user = 1,
      cleanup_task = None, effects = []\<rparr>"

definition prefix_table :: manager where
  "prefix_table =
     snd (get_or_create_kernel (ex_env 0 True) (KernelManager_init 1 1)
            ''alice2'' ''/tmp/alice2'')"

text \<open>A sweep that raises an \<open>Exception\<close> each time.\<close>

definition failing_sweep :: "env \<Rightarrow> manager \<Rightarrow> unit outcome \<times> manager" where
  "failing_sweep e s = (Raised (BackendError ''boom''), s)"

section \<open>Properties of validate\_code\<close>

lemma first_match_None: "first_match ps code = None \<longleftrightarrow> (\<forall>p \<in> set ps. \<not> sublist p code)"
  by (induction ps) auto

lemma first_match_Some:
  "first_match ps code = Some p \<Longrightarrow> p \<in> set ps \<and> sublist p code"
  by (induction ps) (auto split: if_splits)

lemma strip_Nil_iff: "strip s = [] \<longleftrightarrow> (\<forall>c \<in> set s. isspace c)"
proof
  assume "strip s = []"
  then have all: "\<forall>c \<in> set (dropWhile isspace s). isspace c"
    by (simp add: strip_def)
  have "dropWhile isspace s = []"
  proof (rule ccontr)
    assume ne: "dropWhile isspace s \<noteq> []"
    then have "\<not> isspace (hd (dropWhile isspace s))" by (rule hd_dropWhile)
    moreover have "hd (dropWhile isspace s) \<in> set (dropWhile isspace s)"
      using ne by simp
    ultimately show False using all by blast
  qed
  then show "\<forall>c \<in> set s. isspace c" by simp
next
  assume "\<forall>c \<in> set s. isspace c"
  then show "strip s = []"
    by (auto simp: strip_def dest: set_dropWhileD)
qed

lemma dangerous_not_blank:
  assumes "p \<in> set dangerous_patterns" and "sublist p code"
  shows "code \<noteq> [] \<and> strip code \<noteq> []"
proof -
  have "\<exists>c \<in> set p. \<not> isspace c"
    using assms(1) by (auto simp: dangerous_patterns_def isspace_def)
  moreover have "set p \<subseteq> set code"
    using assms(2) by (rule set_mono_sublist)
  ultimately have "\<exists>c \<in> set code. \<not> isspace c" by blast
  then show ?thesis by (auto simp: strip_Nil_iff)
qed

text \<open>
  C4. \<open>validate_code\<close> is a function of the code string alone (and of the parser). It
  accepts exactly the strings that are not empty, not made of whitespace only, contain none
  of the five denylisted substrings and compile. A string that contains a denylisted
  substring is rejected with a reason that ends with a denylisted substring found in it,
  whatever the parser says of it. An empty or whitespace-only string is rejected with the
  reason \<open>Code cannot be empty\<close>.
\<close>

theorem validate_code_spec:
  "(fst (validate_code compile code) \<longleftrightarrow>
      code \<noteq> [] \<and> strip code \<noteq> []
      \<and> (\<forall>p \<in> set dangerous_patterns. \<not> sublist p code)
      \<and> compile code = CompileOk)
   \<and> ((\<exists>p \<in> set dangerous_patterns. sublist p code) \<longrightarrow>
        (\<exists>p \<in> set dangerous_patterns. sublist p code \<and>
           validate_code compile code =
             (False, ''Potentially dangerous operation detected: '' @ p)))
   \<and> (code = [] \<or> (\<forall>c \<in> set code. isspace c) \<longrightarrow>
        validate_code compile code = (False, ''Code cannot be empty'')
        \<and> sublist ''empty'' (snd (validate_code compile code)))"
proof -
  have A: "fst (validate_code compile code) \<longleftrightarrow>
      code \<noteq> [] \<and> strip code \<noteq> []
      \<and> (\<forall>p \<in> set dangerous_patterns. \<not> sublist p code)
      \<and> compile code = CompileOk"
    by (auto simp: validate_code_def first_match_None
             split: option.splits compiled.splits dest: first_match_Some)
  have B: "\<exists>p \<in> set dangerous_patterns. sublist p code \<and>
           validate_code compile code =
             (False, ''Potentially dangerous operation detected: '' @ p)"
    if "\<exists>p \<in> set dangerous_patterns. sublist p code"
  proof -
  from that obtain q where q: "q \<in> set dangerous_patterns" "sublist q code" by blast
  then have nb: "code \<noteq> []" "strip code \<noteq> []"
    using dangerous_not_blank by blast+
  from q have "first_match dangerous_patterns code \<noteq> None"
    by (auto simp: first_match_None)
  then obtain p where p: "first_match dangerous_patterns code = Some p" by blast
  then have "p \<in> set dangerous_patterns \<and> sublist p code" by (rule first_match_Some)
  moreover have "validate_code compile code =
      (False, ''Potentially dangerous operation detected: '' @ p)"
    using nb p by (simp add: validate_code_def)
  ultimately show ?thesis by blast
  qed
  have C: "validate_code compile code = (False, ''Code cannot be empty'')
        \<and> sublist ''empty'' (snd (validate_code compile code))"
    if "code = [] \<or> (\<forall>c \<in> set code. isspace c)"
  proof -
    from that have "code = [] \<or> strip code = []" by (simp add: strip_Nil_iff)
    then show ?thesis by (auto simp: validate_code_def sublist_code)
  qed
  from A B C show ?thesis by blast
qed

theorem validate_code_spec_witness:
  "fst (validate_code (\<lambda>_. CompileOk) ''x = 1'')
   \<and> (\<exists>p \<in> set dangerous_patterns. sublist p ''y = eval(x'' \<and>
         validate_code (\<lambda>_. SyntaxErr ''unexpected EOF'') ''y = eval(x'' =
           (False, ''Potentially dangerous operation detected: '' @ p))
   \<and> validate_code (\<lambda>_. CompileOk) [CHR '' '', CHR 0x0A] = (False, ''Code cannot be empty'')"
proof -
  have a: "''x = 1'' \<noteq> [] \<and> strip ''x = 1'' \<noteq> []
      \<and> (\<forall>p \<in> set dangerous_patterns. \<not> sublist p ''x = 1'')
      \<and> (\<lambda>_. CompileOk) ''x = 1'' = CompileOk"
    by (simp add: strip_def isspace_def dangerous_patterns_def sublist_code)
  have b: "\<exists>p \<in> set dangerous_patterns. sublist p ''y = eval(x''"
    by (simp add: dangerous_patterns_def sublist_code)
  have c: "[CHR '' '', CHR 0x0A] = [] \<or> (\<forall>c \<in> set [CHR '' '', CHR 0x0A]. isspace c)"
    by (simp add: isspace_def)
  show ?thesis
    using a b c
      validate_code_spec [of "\<lambda>_. CompileOk" "''x = 1''"]
      validate_code_spec [of "\<lambda>_. SyntaxErr ''unexpected EOF''" "''y = eval(x''"]
      validate_code_spec [of "\<lambda>_. CompileOk" "[CHR '' '', CHR 0x0A]"]
    by blast
qed

section \<open>Properties of execute\_code\<close>

lemma execute_code_raises:
  "fst (execute_code ch code timeout_s) = Raised (AttributeError ''total_seconds'')"
  by (simp add: execute_code_def Let_def)

text \<open>
  C1. The claim is that \<open>execute_code\<close> returns a result record for every session, code
  and timeout, with \<open>success = False\<close> and a timeout message once the deadline has passed.
  On the input of the source's own timeout test (a kernel that sends nothing for 100
  seconds, a timeout of 2 seconds) the call raises \<open>AttributeError\<close> at line 53 and returns
  no record.
\<close>

theorem execute_code_timeout_test_raises:
  "fst (execute_code \<lparr>clock = 0, inbox = [], submitted = [], logged = []\<rparr>
          ''import time; time.sleep(100)'' 2)
   = Raised (AttributeError ''total_seconds'')"
  by (simp add: execute_code_def Let_def)

section \<open>Properties of cleanup\_kernel\<close>

lemma owners_delete: "owners (AList.delete k d) = owners d - {k}"
  by (simp add: owners_def delete_keys)

lemma owners_update: "owners (AList.update k v d) = insert k (owners d)"
  using dom_update [of k v d] by (simp add: owners_def)

lemma has_key_owners: "has_key d k \<longleftrightarrow> k \<in> owners d"
  by (simp add: has_key_def owners_def)

lemma map_of_None_owners: "map_of d k = None \<longleftrightarrow> k \<notin> owners d"
  by (simp add: owners_def map_of_eq_None_iff)

lemma delete_absent: "k \<notin> owners d \<Longrightarrow> AList.delete k d = d"
  by (simp add: owners_def)

lemma emit_fields [simp]:
  "kernels (emit ev s) = kernels s"
  "last_activity (emit ev s) = last_activity s"
  "working_dirs (emit ev s) = working_dirs s"
  "timeout (emit ev s) = timeout s"
  "max_kernels_per_user (emit ev s) = max_kernels_per_user s"
  "cleanup_task (emit ev s) = cleanup_task s"
  "effects (emit ev s) = effects s @ [ev]"
  by (simp_all add: emit_def)

lemma cleanup_kernel_absent:
  "k \<notin> owners (kernels s) \<Longrightarrow> cleanup_kernel sd s k = (Returned (), s)"
  by (simp add: cleanup_kernel_def map_of_None_owners [symmetric])

lemma cleanup_kernel_present:
  assumes "map_of (kernels s) u = Some km" and "u \<in> owners (last_activity s)"
  shows "cleanup_kernel sd s u =
    (Returned (),
     s\<lparr>kernels := AList.delete u (kernels s),
       last_activity := AList.delete u (last_activity s),
       working_dirs := AList.delete u (working_dirs s),
       effects := effects s @ [ShutdownKernel km True, shutdown_log sd u km]\<rparr>)"
proof (cases "u \<in> owners (working_dirs s)")
  case True
  with assms show ?thesis
    by (cases "sd km")
       (simp_all add: cleanup_kernel_def Let_def has_key_owners shutdown_log_def emit_def)
next
  case False
  then have "AList.delete u (working_dirs s) = working_dirs s" by (rule delete_absent)
  with False assms show ?thesis
    by (cases "sd km")
       (simp_all add: cleanup_kernel_def Let_def has_key_owners shutdown_log_def emit_def)
qed

lemma cleanup_kernel_raises:
  "fst (cleanup_kernel sd s u) = Raised x \<Longrightarrow> x = KeyError"
  by (auto simp: cleanup_kernel_def Let_def split: option.splits if_splits)

lemma cleanup_kernel_kernels:
  "kernels (snd (cleanup_kernel sd s u)) = AList.delete u (kernels s)"
proof (cases "map_of (kernels s) u")
  case None
  then have "u \<notin> owners (kernels s)" by (simp add: map_of_None_owners)
  then show ?thesis by (simp add: cleanup_kernel_absent delete_absent)
next
  case (Some km)
  then show ?thesis
    by (auto simp: cleanup_kernel_def Let_def split: option.splits)
qed

lemma cleanup_kernel_inv:
  assumes "table_inv s"
  shows "fst (cleanup_kernel sd s u) = Returned ()"
    and "table_inv (snd (cleanup_kernel sd s u))"
    and "kernels (snd (cleanup_kernel sd s u)) = AList.delete u (kernels s)"
    and "last_activity (snd (cleanup_kernel sd s u)) = AList.delete u (last_activity s)"
    and "working_dirs (snd (cleanup_kernel sd s u)) = AList.delete u (working_dirs s)"
    and "cleanup_task (snd (cleanup_kernel sd s u)) = cleanup_task s"
    and "timeout (snd (cleanup_kernel sd s u)) = timeout s"
    and "max_kernels_per_user (snd (cleanup_kernel sd s u)) = max_kernels_per_user s"
proof -
  have "fst (cleanup_kernel sd s u) = Returned ()
    \<and> table_inv (snd (cleanup_kernel sd s u))
    \<and> kernels (snd (cleanup_kernel sd s u)) = AList.delete u (kernels s)
    \<and> last_activity (snd (cleanup_kernel sd s u)) = AList.delete u (last_activity s)
    \<and> working_dirs (snd (cleanup_kernel sd s u)) = AList.delete u (working_dirs s)
    \<and> cleanup_task (snd (cleanup_kernel sd s u)) = cleanup_task s
    \<and> timeout (snd (cleanup_kernel sd s u)) = timeout s
    \<and> max_kernels_per_user (snd (cleanup_kernel sd s u)) = max_kernels_per_user s"
  proof (cases "map_of (kernels s) u")
    case None
    then have n: "u \<notin> owners (kernels s)" by (simp add: map_of_None_owners)
    with assms have "u \<notin> owners (last_activity s)" "u \<notin> owners (working_dirs s)"
      by (auto simp: table_inv_def)
    with n assms show ?thesis by (simp add: cleanup_kernel_absent delete_absent)
  next
    case (Some km)
    then have "u \<in> owners (kernels s)"
      using map_of_None_owners [of "kernels s" u] by auto
    with assms have "u \<in> owners (last_activity s)" by (simp add: table_inv_def)
    with Some assms show ?thesis
      by (auto simp: cleanup_kernel_present table_inv_def owners_delete)
  qed
  then show "fst (cleanup_kernel sd s u) = Returned ()"
    and "table_inv (snd (cleanup_kernel sd s u))"
    and "kernels (snd (cleanup_kernel sd s u)) = AList.delete u (kernels s)"
    and "last_activity (snd (cleanup_kernel sd s u)) = AList.delete u (last_activity s)"
    and "working_dirs (snd (cleanup_kernel sd s u)) = AList.delete u (working_dirs s)"
    and "cleanup_task (snd (cleanup_kernel sd s u)) = cleanup_task s"
    and "timeout (snd (cleanup_kernel sd s u)) = timeout s"
    and "max_kernels_per_user (snd (cleanup_kernel sd s u)) = max_kernels_per_user s"
    by simp_all
qed

section \<open>Properties of get\_or\_create\_kernel\<close>

lemma map_of_Some_owners: "map_of d k = Some v \<Longrightarrow> k \<in> owners d"
  using map_of_None_owners [of d k] by auto

lemma reuse_or_expire_cases:
  obtains
    (absent) "map_of (kernels s) u = None" "reuse_or_expire e s u = (Returned None, s)"
  | (broken) km where "map_of (kernels s) u = Some km" "map_of (last_activity s) u = None"
      "reuse_or_expire e s u = (Raised KeyError, s)"
  | (live) km la where "map_of (kernels s) u = Some km" "map_of (last_activity s) u = Some la"
      "now_check e - la < timeout s"
      "reuse_or_expire e s u =
         (Returned (Some km),
          s\<lparr>last_activity := AList.update u (now_refresh e) (last_activity s),
            effects := effects s @ [LogInfo (''Reusing kernel for user '' @ u)]\<rparr>)"
  | (expired) km la where "map_of (kernels s) u = Some km"
      "map_of (last_activity s) u = Some la" "\<not> now_check e - la < timeout s"
      "reuse_or_expire e s u =
         (Returned None,
          s\<lparr>kernels := AList.delete u (kernels s),
            last_activity := AList.delete u (last_activity s),
            working_dirs := AList.delete u (working_dirs s),
            effects := effects s @ [expired_log u, ShutdownKernel km True,
                                    shutdown_log (shutdown_error e) u km]\<rparr>)"
proof (cases "map_of (kernels s) u")
  case None
  then show ?thesis using absent by (simp add: reuse_or_expire_def)
next
  case (Some km)
  note k = this
  show ?thesis
  proof (cases "map_of (last_activity s) u")
    case None
    with k show ?thesis using broken by (simp add: reuse_or_expire_def)
  next
    case (Some la)
    note l = this
    show ?thesis
    proof (cases "now_check e - la < timeout s")
      case True
      with k l show ?thesis using live by (simp add: reuse_or_expire_def emit_def)
    next
      case False
      let ?s0 = "emit (expired_log u) s"
      have "map_of (kernels ?s0) u = Some km" using k by simp
      moreover have "u \<in> owners (last_activity ?s0)"
        using l by (simp add: map_of_Some_owners)
      ultimately have "cleanup_kernel (shutdown_error e) ?s0 u =
        (Returned (),
         ?s0\<lparr>kernels := AList.delete u (kernels ?s0),
           last_activity := AList.delete u (last_activity ?s0),
           working_dirs := AList.delete u (working_dirs ?s0),
           effects := effects ?s0 @ [ShutdownKernel km True,
                                     shutdown_log (shutdown_error e) u km]\<rparr>)"
        by (rule cleanup_kernel_present)
      with k l False show ?thesis using expired
        by (simp add: reuse_or_expire_def expired_log_def emit_def)
    qed
  qed
qed

lemma start_backend_ok:
  "starts e \<Longrightarrow>
   start_backend e s u wd =
     (Awaiting (new_kernel e), s\<lparr>effects := effects s @ create_events u wd (new_kernel e)\<rparr>)"
  by (simp add: start_backend_def starts_def create_events_def emit_def Let_def)

lemma start_backend_state:
  "\<exists>evs. snd (start_backend e s u wd) = s\<lparr>effects := effects s @ evs\<rparr>"
proof (cases "mkdir_error e")
  case (Some x)
  then have "snd (start_backend e s u wd) = s\<lparr>effects := effects s @ [Mkdir wd]\<rparr>"
    by (simp add: start_backend_def emit_def Let_def)
  then show ?thesis by blast
next
  case None
  note m = this
  show ?thesis
  proof (cases "start_error e")
    case (Some x)
    with m have "snd (start_backend e s u wd) =
        s\<lparr>effects := effects s @ [Mkdir wd,
             LogInfo (''Creating new kernel for user '' @ u @ '' in '' @ wd),
             StartKernel (new_kernel e) wd]\<rparr>"
      by (simp add: start_backend_def emit_def Let_def)
    then show ?thesis by blast
  next
    case None
    note st = this
    show ?thesis
    proof (cases "channels_error e")
      case (Some x)
      with m st have "snd (start_backend e s u wd) =
          s\<lparr>effects := effects s @ create_events u wd (new_kernel e)\<rparr>"
        by (simp add: start_backend_def emit_def Let_def create_events_def)
      then show ?thesis by blast
    next
      case None
      with m st have "starts e" by (simp add: starts_def)
      then have "snd (start_backend e s u wd) =
          s\<lparr>effects := effects s @ create_events u wd (new_kernel e)\<rparr>"
        by (simp add: start_backend_ok)
      then show ?thesis by blast
    qed
  qed
qed

lemma start_backend_Awaiting:
  "fst (start_backend e s u wd) = Awaiting km \<Longrightarrow> starts e \<and> km = new_kernel e"
  by (auto simp: start_backend_def starts_def Let_def split: option.splits)

lemma start_backend_Done:
  "fst (start_backend e s u wd) = Done r \<Longrightarrow>
   (\<exists>x. r = Raised (OSError x)) \<or> (\<exists>x. r = Raised (BackendError x))"
  by (auto simp: start_backend_def Let_def split: option.splits)

lemma begin_after_check:
  assumes "reuse_or_expire e s u = (Returned None, s1)"
  shows "get_or_create_begin e s u wd =
    (if max_kernels_per_user s1 \<le> user_kernel_count s1 u
     then (Done (Raised (QuotaExceeded u (max_kernels_per_user s1))), s1)
     else start_backend e s1 u wd)"
  using assms by (simp add: get_or_create_begin_def)

lemma begin_state:
  "\<exists>evs. snd (get_or_create_begin e s u wd)
     = (snd (reuse_or_expire e s u))\<lparr>effects := effects (snd (reuse_or_expire e s u)) @ evs\<rparr>"
proof (cases "reuse_or_expire e s u")
  case (Pair r s1)
  show ?thesis
  proof (cases r)
    case (Raised x)
    with Pair have "snd (get_or_create_begin e s u wd) = s1"
      by (simp add: get_or_create_begin_def)
    then have "snd (get_or_create_begin e s u wd) = s1\<lparr>effects := effects s1 @ []\<rparr>"
      by simp
    with Pair show ?thesis by (metis snd_conv)
  next
    case (Returned o1)
    show ?thesis
    proof (cases o1)
      case (Some km)
      with Pair Returned have "snd (get_or_create_begin e s u wd) = s1"
        by (simp add: get_or_create_begin_def)
      then have "snd (get_or_create_begin e s u wd) = s1\<lparr>effects := effects s1 @ []\<rparr>"
        by simp
      with Pair show ?thesis by (metis snd_conv)
    next
      case None
      with Pair Returned have r: "reuse_or_expire e s u = (Returned None, s1)" by simp
      show ?thesis
      proof (cases "max_kernels_per_user s1 \<le> user_kernel_count s1 u")
        case True
        then have "snd (get_or_create_begin e s u wd) = s1\<lparr>effects := effects s1 @ []\<rparr>"
          by (simp add: begin_after_check [OF r])
        with Pair show ?thesis by (metis snd_conv)
      next
        case False
        then have "snd (get_or_create_begin e s u wd) = snd (start_backend e s1 u wd)"
          by (simp add: begin_after_check [OF r])
        moreover obtain evs
          where "snd (start_backend e s1 u wd) = s1\<lparr>effects := effects s1 @ evs\<rparr>"
          using start_backend_state [of e s1 u wd] by blast
        ultimately have "snd (get_or_create_begin e s u wd)
            = s1\<lparr>effects := effects s1 @ evs\<rparr>"
          by simp
        with Pair show ?thesis by (metis snd_conv)
      qed
    qed
  qed
qed

lemma table_inv_effects [simp]: "table_inv (s\<lparr>effects := evs\<rparr>) = table_inv s"
  by (simp add: table_inv_def)

lemma one_per_owner_effects [simp]: "one_per_owner (s\<lparr>effects := evs\<rparr>) = one_per_owner s"
  by (simp add: one_per_owner_def)

lemma table_inv_emit [simp]: "table_inv (emit ev s) = table_inv s"
  by (simp add: emit_def)

lemma one_per_owner_emit [simp]: "one_per_owner (emit ev s) = one_per_owner s"
  by (simp add: emit_def)

lemma cleanup_kernel_one_per_owner:
  "one_per_owner s \<Longrightarrow> one_per_owner (snd (cleanup_kernel sd s u))"
  by (simp add: one_per_owner_def cleanup_kernel_kernels distinct_delete)

lemma reuse_or_expire_table_inv:
  assumes "table_inv s" shows "table_inv (snd (reuse_or_expire e s u))"
proof (cases rule: reuse_or_expire_cases [of s u e])
  case absent
  with assms show ?thesis by simp
next
  case (broken km)
  with assms show ?thesis by simp
next
  case (live km la)
  from live(2) have "u \<in> owners (last_activity s)" by (rule map_of_Some_owners)
  with assms live(4) show ?thesis
    by (auto simp: table_inv_def owners_update)
next
  case (expired km la)
  with assms show ?thesis
    by (auto simp: table_inv_def owners_delete)
qed

lemma reuse_or_expire_one_per_owner:
  assumes "one_per_owner s" shows "one_per_owner (snd (reuse_or_expire e s u))"
proof (cases rule: reuse_or_expire_cases [of s u e])
  case absent
  with assms show ?thesis by simp
next
  case (broken km)
  with assms show ?thesis by simp
next
  case (live km la)
  with assms show ?thesis by (simp add: one_per_owner_def)
next
  case (expired km la)
  with assms show ?thesis by (simp add: one_per_owner_def distinct_delete)
qed

lemma begin_table_inv:
  "table_inv s \<Longrightarrow> table_inv (snd (get_or_create_begin e s u wd))"
  using begin_state [of e s u wd] reuse_or_expire_table_inv [of s e u] by auto

lemma begin_one_per_owner:
  "one_per_owner s \<Longrightarrow> one_per_owner (snd (get_or_create_begin e s u wd))"
  using begin_state [of e s u wd] reuse_or_expire_one_per_owner [of s e u] by auto

lemma finish_table_inv:
  "table_inv s \<Longrightarrow> table_inv (snd (get_or_create_finish e s u wd km))"
  by (auto simp: get_or_create_finish_def Let_def table_inv_def owners_update
           split: option.splits waited.splits)

lemma finish_one_per_owner:
  "one_per_owner s \<Longrightarrow> one_per_owner (snd (get_or_create_finish e s u wd km))"
  by (auto simp: get_or_create_finish_def Let_def one_per_owner_def distinct_update
           split: option.splits waited.splits)

lemma get_or_create_kernel_split:
  "snd (get_or_create_kernel e s u wd) = snd (get_or_create_begin e s u wd)
   \<or> (\<exists>km. snd (get_or_create_kernel e s u wd)
         = snd (get_or_create_finish e (snd (get_or_create_begin e s u wd)) u wd km))"
  by (cases "get_or_create_begin e s u wd")
     (auto simp: get_or_create_kernel_def split: begun.splits)

lemma get_or_create_kernel_table_inv:
  "table_inv s \<Longrightarrow> table_inv (snd (get_or_create_kernel e s u wd))"
  using get_or_create_kernel_split [of e s u wd] begin_table_inv [of s e u wd]
    finish_table_inv by metis

lemma get_or_create_kernel_one_per_owner:
  "one_per_owner s \<Longrightarrow> one_per_owner (snd (get_or_create_kernel e s u wd))"
  using get_or_create_kernel_split [of e s u wd] begin_one_per_owner [of s e u wd]
    finish_one_per_owner by metis

section \<open>Properties of the loops and of shutdown\_all\<close>

lemma cleanup_expired_loop_inv:
  "table_inv s \<Longrightarrow>
     fst (cleanup_expired_loop sd us s) = Returned ()
     \<and> table_inv (snd (cleanup_expired_loop sd us s))
     \<and> owners (kernels (snd (cleanup_expired_loop sd us s))) = owners (kernels s) - set us
     \<and> cleanup_task (snd (cleanup_expired_loop sd us s)) = cleanup_task s"
proof (induction us arbitrary: s)
  case Nil
  then show ?case by simp
next
  case (Cons u us)
  let ?s0 = "emit (LogInfo (''Cleaning up expired kernel for user '' @ u)) s"
  let ?s1 = "snd (cleanup_kernel sd ?s0 u)"
  have inv0: "table_inv ?s0" using Cons.prems by simp
  have r: "fst (cleanup_kernel sd ?s0 u) = Returned ()"
    using inv0 by (rule cleanup_kernel_inv(1))
  have inv1: "table_inv ?s1" using inv0 by (rule cleanup_kernel_inv(2))
  have k1: "owners (kernels ?s1) = owners (kernels s) - {u}"
    using cleanup_kernel_inv(3) [OF inv0, of sd u] by (simp add: owners_delete)
  have t1: "cleanup_task ?s1 = cleanup_task s"
    using cleanup_kernel_inv(6) [OF inv0, of sd u] by simp
  have step: "cleanup_expired_loop sd (u # us) s = cleanup_expired_loop sd us ?s1"
    using r by (cases "cleanup_kernel sd ?s0 u") simp
  show ?case
    unfolding step using Cons.IH [OF inv1] k1 t1 by auto
qed

lemma cleanup_expired_loop_one_per_owner:
  "one_per_owner s \<Longrightarrow> one_per_owner (snd (cleanup_expired_loop sd us s))"
proof (induction us arbitrary: s)
  case Nil
  then show ?case by simp
next
  case (Cons u us)
  let ?s0 = "emit (LogInfo (''Cleaning up expired kernel for user '' @ u)) s"
  have o: "one_per_owner (snd (cleanup_kernel sd ?s0 u))"
    using Cons.prems by (simp add: cleanup_kernel_one_per_owner)
  show ?case
  proof (cases "cleanup_kernel sd ?s0 u")
    case (Pair r s1)
    with o have o1: "one_per_owner s1" by simp
    show ?thesis
    proof (cases r)
      case (Returned x)
      with Pair show ?thesis using Cons.IH [OF o1] by simp
    next
      case (Raised x)
      with Pair o1 show ?thesis by simp
    qed
  qed
qed

lemma shutdown_loop_inv:
  "table_inv s \<Longrightarrow>
     fst (shutdown_loop sd us s) = Returned ()
     \<and> table_inv (snd (shutdown_loop sd us s))
     \<and> owners (kernels (snd (shutdown_loop sd us s))) = owners (kernels s) - set us
     \<and> cleanup_task (snd (shutdown_loop sd us s)) = cleanup_task s"
proof (induction us arbitrary: s)
  case Nil
  then show ?case by simp
next
  case (Cons u us)
  let ?s1 = "snd (cleanup_kernel sd s u)"
  have r: "fst (cleanup_kernel sd s u) = Returned ()"
    using Cons.prems by (rule cleanup_kernel_inv(1))
  have inv1: "table_inv ?s1" using Cons.prems by (rule cleanup_kernel_inv(2))
  have k1: "owners (kernels ?s1) = owners (kernels s) - {u}"
    using cleanup_kernel_inv(3) [OF Cons.prems, of sd u] by (simp add: owners_delete)
  have t1: "cleanup_task ?s1 = cleanup_task s"
    using Cons.prems by (rule cleanup_kernel_inv(6))
  have step: "shutdown_loop sd (u # us) s = shutdown_loop sd us ?s1"
    using r by (cases "cleanup_kernel sd s u") simp
  show ?case
    unfolding step using Cons.IH [OF inv1] k1 t1 by auto
qed

lemma shutdown_loop_one_per_owner:
  "one_per_owner s \<Longrightarrow> one_per_owner (snd (shutdown_loop sd us s))"
proof (induction us arbitrary: s)
  case Nil
  then show ?case by simp
next
  case (Cons u us)
  have o: "one_per_owner (snd (cleanup_kernel sd s u))"
    using Cons.prems by (rule cleanup_kernel_one_per_owner)
  show ?case
  proof (cases "cleanup_kernel sd s u")
    case (Pair r s1)
    with o have o1: "one_per_owner s1" by simp
    show ?thesis
    proof (cases r)
      case (Returned x)
      with Pair show ?thesis using Cons.IH [OF o1] by simp
    next
      case (Raised x)
      with Pair o1 show ?thesis by simp
    qed
  qed
qed

lemma cleanup_expired_kernels_table_inv:
  "table_inv s \<Longrightarrow> table_inv (snd (cleanup_expired_kernels e s))"
  by (simp add: cleanup_expired_kernels_def cleanup_expired_loop_inv)

lemma cleanup_expired_kernels_one_per_owner:
  "one_per_owner s \<Longrightarrow> one_per_owner (snd (cleanup_expired_kernels e s))"
  by (simp add: cleanup_expired_kernels_def cleanup_expired_loop_one_per_owner)

lemma cleanup_expired_kernels_raises:
  "fst (cleanup_expired_kernels e s) = Raised x \<Longrightarrow> x = KeyError"
proof -
  have "fst (cleanup_expired_loop sd us s) = Raised x \<Longrightarrow> x = KeyError" for sd us s
  proof (induction us arbitrary: s)
    case Nil
    then show ?case by simp
  next
    case (Cons u us)
    let ?s0 = "emit (LogInfo (''Cleaning up expired kernel for user '' @ u)) s"
    show ?case
    proof (cases "cleanup_kernel sd ?s0 u")
      case (Pair r s1)
      show ?thesis
      proof (cases r)
        case (Returned y)
        with Pair Cons show ?thesis by simp
      next
        case (Raised y)
        with Pair have "fst (cleanup_kernel sd ?s0 u) = Raised y" by simp
        then have "y = KeyError" by (rule cleanup_kernel_raises)
        with Pair Raised Cons.prems show ?thesis by simp
      qed
    qed
  qed
  then show "fst (cleanup_expired_kernels e s) = Raised x \<Longrightarrow> x = KeyError"
    by (simp add: cleanup_expired_kernels_def)
qed

lemma periodic_cleanup_with_keeps:
  assumes sweep: "\<And>e s. P s \<Longrightarrow> P (snd (sweep e s))"
      and log: "\<And>ev s. P s \<Longrightarrow> P (emit ev s)"
  shows "P s \<Longrightarrow> P (snd (periodic_cleanup_with sweep ws s))"
proof (induction ws arbitrary: s)
  case Nil
  then show ?case by simp
next
  case (Cons w ws)
  show ?case
  proof (cases w)
    case Cancel
    with Cons.prems show ?thesis by simp
  next
    case (Wake e)
    have p1: "P (snd (sweep e s))" using Cons.prems by (rule sweep)
    show ?thesis
    proof (cases "sweep e s")
      case (Pair r s1)
      with p1 have p: "P s1" by simp
      show ?thesis
      proof (cases r)
        case (Returned y)
        with Pair Wake show ?thesis using Cons.IH [OF p] by simp
      next
        case (Raised x)
        with Pair Wake p show ?thesis
          using Cons.IH [OF log [OF p]] by simp
      qed
    qed
  qed
qed

lemma periodic_cleanup_table_inv:
  "table_inv s \<Longrightarrow> table_inv (snd (periodic_cleanup ws s))"
  unfolding periodic_cleanup_def
  by (rule periodic_cleanup_with_keeps [where P = table_inv])
     (simp_all add: cleanup_expired_kernels_table_inv)

lemma periodic_cleanup_one_per_owner:
  "one_per_owner s \<Longrightarrow> one_per_owner (snd (periodic_cleanup ws s))"
  unfolding periodic_cleanup_def
  by (rule periodic_cleanup_with_keeps [where P = one_per_owner])
     (simp_all add: cleanup_expired_kernels_one_per_owner)

lemma cancel_and_await_tables:
  "kernels (snd (cancel_and_await t s)) = kernels s
   \<and> last_activity (snd (cancel_and_await t s)) = last_activity s
   \<and> working_dirs (snd (cancel_and_await t s)) = working_dirs s"
  by (cases t) (simp_all add: cancel_and_await_def periodic_cleanup_def)

lemma cancel_and_await_returns:
  "cleanup_task s = Some t \<Longrightarrow>
   fst (cancel_and_await t s) = Some (Returned ())
   \<and> cleanup_task (snd (cancel_and_await t s)) \<in> {Some Finished, Some Cancelled}"
  by (cases t) (simp_all add: cancel_and_await_def periodic_cleanup_def)

lemma shutdown_all_state:
  "snd (shutdown_all sd s) =
     (let s1 = snd (shutdown_loop sd (map fst (kernels s))
                      (emit (LogInfo ''Shutting down all kernels...'') s))
      in if fst (shutdown_loop sd (map fst (kernels s))
                   (emit (LogInfo ''Shutting down all kernels...'') s)) = Returned ()
         then (case cleanup_task s1 of None \<Rightarrow> s1 | Some t \<Rightarrow> snd (cancel_and_await t s1))
         else s1)"
  by (cases "shutdown_loop sd (map fst (kernels s))
               (emit (LogInfo ''Shutting down all kernels...'') s)")
     (auto simp: shutdown_all_def Let_def split: outcome.splits option.splits)

lemma table_inv_tables:
  "kernels s' = kernels s \<Longrightarrow> last_activity s' = last_activity s
   \<Longrightarrow> working_dirs s' = working_dirs s \<Longrightarrow> table_inv s' = table_inv s"
  by (simp add: table_inv_def)

lemma shutdown_all_table_inv:
  assumes "table_inv s" shows "table_inv (snd (shutdown_all sd s))"
proof -
  let ?s0 = "emit (LogInfo ''Shutting down all kernels...'') s"
  let ?s1 = "snd (shutdown_loop sd (map fst (kernels s)) ?s0)"
  have inv0: "table_inv ?s0" using assms by simp
  have inv1: "table_inv ?s1" using shutdown_loop_inv [OF inv0] by simp
  have "table_inv (snd (cancel_and_await t ?s1))" for t
    using cancel_and_await_tables [of t ?s1] inv1 table_inv_tables by metis
  with inv1 show ?thesis
    by (simp add: shutdown_all_state Let_def split: option.splits)
qed

lemma shutdown_all_one_per_owner:
  assumes "one_per_owner s" shows "one_per_owner (snd (shutdown_all sd s))"
proof -
  let ?s0 = "emit (LogInfo ''Shutting down all kernels...'') s"
  let ?s1 = "snd (shutdown_loop sd (map fst (kernels s)) ?s0)"
  have o0: "one_per_owner ?s0" using assms by simp
  have o1: "one_per_owner ?s1" using o0 by (rule shutdown_loop_one_per_owner)
  have "one_per_owner (snd (cancel_and_await t ?s1))" for t
    using cancel_and_await_tables [of t ?s1] o1 by (simp add: one_per_owner_def)
  with o1 show ?thesis
    by (simp add: shutdown_all_state Let_def split: option.splits)
qed

section \<open>Invariants of the reachable states\<close>

lemma reachable_table_inv: "reachable s \<Longrightarrow> table_inv s"
proof (induction rule: reachable.induct)
  case (r_init timeout_minutes max_kernels)
  show ?case by (simp add: KernelManager_init_def table_inv_def owners_def)
next
  case (r_start s)
  then show ?case by (auto simp: start_cleanup_task_def table_inv_def)
next
  case (r_run s)
  then show ?case by (auto simp: run_cleanup_task_def table_inv_def)
next
  case (r_begin s e u wd)
  then show ?case by (simp add: begin_table_inv)
next
  case (r_finish s e u wd km)
  then show ?case by (simp add: finish_table_inv)
next
  case (r_destroy s sd u)
  then show ?case by (simp add: cleanup_kernel_inv(2))
next
  case (r_sweep s e)
  then show ?case by (simp add: cleanup_expired_kernels_table_inv)
next
  case (r_reaper s ws)
  then show ?case by (simp add: periodic_cleanup_table_inv)
next
  case (r_shutdown s sd)
  then show ?case by (simp add: shutdown_all_table_inv)
qed

lemma reachable_one_per_owner: "reachable s \<Longrightarrow> one_per_owner s"
proof (induction rule: reachable.induct)
  case (r_init timeout_minutes max_kernels)
  show ?case by (simp add: KernelManager_init_def one_per_owner_def)
next
  case (r_start s)
  then show ?case by (simp add: start_cleanup_task_def one_per_owner_def)
next
  case (r_run s)
  then show ?case by (simp add: run_cleanup_task_def one_per_owner_def)
next
  case (r_begin s e u wd)
  then show ?case by (simp add: begin_one_per_owner)
next
  case (r_finish s e u wd km)
  then show ?case by (simp add: finish_one_per_owner)
next
  case (r_destroy s sd u)
  then show ?case by (simp add: cleanup_kernel_one_per_owner)
next
  case (r_sweep s e)
  then show ?case by (simp add: cleanup_expired_kernels_one_per_owner)
next
  case (r_reaper s ws)
  then show ?case by (simp add: periodic_cleanup_one_per_owner)
next
  case (r_shutdown s sd)
  then show ?case by (simp add: shutdown_all_one_per_owner)
qed

section \<open>Coordinated shutdown\<close>

lemma owners_empty: "owners d = {} \<longleftrightarrow> d = []"
  by (simp add: owners_def)

lemma cleanup_kernel_effects_mono:
  "set (effects s) \<subseteq> set (effects (snd (cleanup_kernel sd s u)))"
  by (auto simp: cleanup_kernel_def Let_def has_key_def emit_def split: option.splits)

lemma shutdown_loop_effects_mono:
  "set (effects s) \<subseteq> set (effects (snd (shutdown_loop sd us s)))"
proof (induction us arbitrary: s)
  case Nil
  show ?case by simp
next
  case (Cons u us)
  show ?case
  proof (cases "cleanup_kernel sd s u")
    case (Pair r s1)
    have m: "set (effects s) \<subseteq> set (effects s1)"
      using cleanup_kernel_effects_mono [of s sd u] Pair by simp
    show ?thesis
    proof (cases r)
      case (Returned x)
      with Pair m Cons.IH [of s1] show ?thesis by auto
    next
      case (Raised x)
      with Pair m show ?thesis by simp
    qed
  qed
qed

lemma shutdown_loop_shuts:
  "table_inv s \<Longrightarrow> map_of (kernels s) u = Some km \<Longrightarrow> u \<in> set us
   \<Longrightarrow> ShutdownKernel km True \<in> set (effects (snd (shutdown_loop sd us s)))"
proof (induction us arbitrary: s)
  case Nil
  then show ?case by simp
next
  case (Cons v us)
  let ?s1 = "snd (cleanup_kernel sd s v)"
  have r: "fst (cleanup_kernel sd s v) = Returned ()"
    using Cons.prems(1) by (rule cleanup_kernel_inv(1))
  have step: "shutdown_loop sd (v # us) s = shutdown_loop sd us ?s1"
    using r by (cases "cleanup_kernel sd s v") simp
  have inv1: "table_inv ?s1" using Cons.prems(1) by (rule cleanup_kernel_inv(2))
  show ?case
  proof (cases "v = u")
    case True
    have "u \<in> owners (last_activity s)"
      using Cons.prems(1,2) map_of_Some_owners [of "kernels s" u km]
      by (simp add: table_inv_def)
    then have "ShutdownKernel km True \<in> set (effects ?s1)"
      using True Cons.prems(2) by (simp add: cleanup_kernel_present)
    then show ?thesis
      unfolding step using shutdown_loop_effects_mono [of ?s1 sd us] by blast
  next
    case False
    then have "map_of (kernels ?s1) u = Some km"
      using Cons.prems(2) by (simp add: cleanup_kernel_kernels)
    moreover have "u \<in> set us" using False Cons.prems(3) by simp
    ultimately show ?thesis
      unfolding step using Cons.IH [OF inv1] by blast
  qed
qed

lemma cancel_and_await_effects:
  "effects (snd (cancel_and_await t s)) = effects s"
  by (cases t) (simp_all add: cancel_and_await_def periodic_cleanup_def)

text \<open>
  C7. On a manager whose dictionaries satisfy \<open>table_inv\<close>, \<open>shutdown_all\<close> returns, and
  then the three dictionaries are empty, \<open>shutdown_kernel(now=True)\<close> has been called on
  every backend that was registered, and the reaper task, if one was started, is over: a
  loop that was suspended in its sleep has received the cancellation and has exited before
  the \<open>await\<close> of line 192 returns, and a task that had not run yet is cancelled.
\<close>

theorem shutdown_all_spec:
  assumes "table_inv s"
  shows "fst (shutdown_all sd s) = Some (Returned ())
    \<and> kernels (snd (shutdown_all sd s)) = []
    \<and> last_activity (snd (shutdown_all sd s)) = []
    \<and> working_dirs (snd (shutdown_all sd s)) = []
    \<and> (\<forall>u km. map_of (kernels s) u = Some km
          \<longrightarrow> ShutdownKernel km True \<in> set (effects (snd (shutdown_all sd s))))
    \<and> (cleanup_task s = None \<longrightarrow> cleanup_task (snd (shutdown_all sd s)) = None)
    \<and> (cleanup_task s = Some Sleeping
          \<longrightarrow> cleanup_task (snd (shutdown_all sd s)) = Some Finished)
    \<and> (cleanup_task s \<noteq> None
          \<longrightarrow> cleanup_task (snd (shutdown_all sd s)) \<in> {Some Finished, Some Cancelled})"
proof -
  let ?s0 = "emit (LogInfo ''Shutting down all kernels...'') s"
  let ?us = "map fst (kernels s)"
  let ?s1 = "snd (shutdown_loop sd ?us ?s0)"
  let ?s2 = "snd (shutdown_all sd s)"
  have inv0: "table_inv ?s0" using assms by simp
  note loop = shutdown_loop_inv [OF inv0, of sd ?us]
  have ret: "fst (shutdown_loop sd ?us ?s0) = Returned ()" using loop by simp
  have inv1: "table_inv ?s1" using loop by simp
  have "owners (kernels ?s1) = {}" using loop by (simp add: owners_def)
  then have k1: "kernels ?s1 = []" by (simp add: owners_empty)
  with inv1 have "owners (last_activity ?s1) = {}" "owners (working_dirs ?s1) = {}"
    by (simp_all add: table_inv_def owners_def)
  then have l1: "last_activity ?s1 = []" and w1: "working_dirs ?s1 = []"
    by (simp_all add: owners_empty)
  have t1: "cleanup_task ?s1 = cleanup_task s" using loop by simp
  have shut: "ShutdownKernel km True \<in> set (effects ?s1)"
    if "map_of (kernels s) u = Some km" for u km
  proof -
    have "u \<in> set ?us" using that map_of_Some_owners [of "kernels s" u km]
      by (simp add: owners_def)
    moreover have "map_of (kernels ?s0) u = Some km" using that by simp
    ultimately show ?thesis using shutdown_loop_shuts [OF inv0] by blast
  qed
  show ?thesis
  proof (cases "cleanup_task s")
    case None
    then have "shutdown_all sd s = (Some (Returned ()), ?s1)"
      using ret t1
      by (cases "shutdown_loop sd ?us ?s0") (simp add: shutdown_all_def Let_def)
    with None k1 l1 w1 t1 shut show ?thesis by simp
  next
    case (Some t)
    then have c: "cleanup_task ?s1 = Some t" using t1 by simp
    have eq: "shutdown_all sd s = cancel_and_await t ?s1"
      using ret c
      by (cases "shutdown_loop sd ?us ?s0") (simp add: shutdown_all_def Let_def)
    note ca = cancel_and_await_returns [OF c] cancel_and_await_tables [of t ?s1]
      cancel_and_await_effects [of t ?s1]
    have fin: "t = Sleeping \<Longrightarrow> cleanup_task (snd (cancel_and_await t ?s1)) = Some Finished"
      by (simp add: cancel_and_await_def periodic_cleanup_def)
    show ?thesis
      unfolding eq using Some ca k1 l1 w1 shut fin by simp
  qed
qed

section \<open>Destroying one session\<close>

lemma table_inv_ex_table: "table_inv ex_table"
  by (simp add: table_inv_def ex_table_def owners_def)

text \<open>
  C6. On a manager whose dictionaries satisfy \<open>table_inv\<close>, \<open>cleanup_kernel\<close> never raises.
  For an owner without an entry it returns the state unchanged. Otherwise it removes the
  owner's entries from the three dictionaries and keeps the entries of the other owners,
  also when \<open>shutdown_kernel\<close> raises: that exception is logged as an error, after the
  shutdown call, and does not leave the function. A second call for the same owner changes
  nothing.
\<close>

theorem cleanup_kernel_spec:
  assumes "table_inv s"
  shows "fst (cleanup_kernel sd s u) = Returned ()
    \<and> (u \<notin> owners (kernels s) \<longrightarrow> cleanup_kernel sd s u = (Returned (), s))
    \<and> kernels (snd (cleanup_kernel sd s u)) = AList.delete u (kernels s)
    \<and> last_activity (snd (cleanup_kernel sd s u)) = AList.delete u (last_activity s)
    \<and> working_dirs (snd (cleanup_kernel sd s u)) = AList.delete u (working_dirs s)
    \<and> u \<notin> owners (kernels (snd (cleanup_kernel sd s u)))
    \<and> u \<notin> owners (last_activity (snd (cleanup_kernel sd s u)))
    \<and> u \<notin> owners (working_dirs (snd (cleanup_kernel sd s u)))
    \<and> (\<forall>km x. map_of (kernels s) u = Some km \<and> sd km = Some x \<longrightarrow>
          effects (snd (cleanup_kernel sd s u)) =
            effects s @ [ShutdownKernel km True,
                         LogError (''Error shutting down kernel for user '' @ u
                                   @ '': '' @ x)])
    \<and> cleanup_kernel sd' (snd (cleanup_kernel sd s u)) u
        = (Returned (), snd (cleanup_kernel sd s u))"
proof -
  let ?s' = "snd (cleanup_kernel sd s u)"
  note inv = cleanup_kernel_inv [OF assms, of sd u]
  have gone: "u \<notin> owners (kernels ?s')" "u \<notin> owners (last_activity ?s')"
    "u \<notin> owners (working_dirs ?s')"
    using inv by (simp_all add: owners_delete)
  have log: "effects ?s' = effects s @ [ShutdownKernel km True,
      LogError (''Error shutting down kernel for user '' @ u @ '': '' @ x)]"
    if "map_of (kernels s) u = Some km" "sd km = Some x" for km x
  proof -
    have "u \<in> owners (last_activity s)"
      using assms that(1) map_of_Some_owners [of "kernels s" u km]
      by (simp add: table_inv_def)
    with that show ?thesis
      by (simp add: cleanup_kernel_present shutdown_log_def)
  qed
  have again: "cleanup_kernel sd' ?s' u = (Returned (), ?s')"
    using gone(1) by (rule cleanup_kernel_absent)
  show ?thesis
    using inv gone log again cleanup_kernel_absent [of u s sd] by auto
qed

theorem cleanup_kernel_spec_witness:
  "table_inv ex_table
   \<and> fst (cleanup_kernel (\<lambda>_. Some ''boom'') ex_table ''alice'') = Returned ()
   \<and> ''alice'' \<notin> owners (kernels (snd (cleanup_kernel (\<lambda>_. Some ''boom'') ex_table ''alice'')))
   \<and> effects (snd (cleanup_kernel (\<lambda>_. Some ''boom'') ex_table ''alice'')) =
        effects ex_table @ [ShutdownKernel 1 True,
           LogError (''Error shutting down kernel for user '' @ ''alice'' @ '': '' @ ''boom'')]"
proof -
  have k: "map_of (kernels ex_table) ''alice'' = Some 1 \<and> (\<lambda>_. Some ''boom'') (1::nat) = Some ''boom''"
    by (simp add: ex_table_def)
  show ?thesis
    using table_inv_ex_table k
      cleanup_kernel_spec [OF table_inv_ex_table, of "\<lambda>_. Some ''boom''" "''alice''"]
    by blast
qed

section \<open>One session per owner, and the structure of the dictionaries\<close>

lemma distinct_filter_le1: "distinct xs \<Longrightarrow> length (filter (\<lambda>x. x = u) xs) \<le> 1"
  by (induction xs) (auto simp: filter_empty_conv)

text \<open>
  C8. In every reachable state, under any interleaving of calls of
  \<open>get_or_create_kernel\<close> (split at its \<open>await\<close>), \<open>cleanup_kernel\<close>,
  \<open>cleanup_expired_kernels\<close>, the reaper loop and \<open>shutdown_all\<close>, the keys of the
  \<open>kernels\<close> dictionary are distinct: at most one session is registered under an owner.
\<close>

theorem one_session_per_owner:
  assumes "reachable s"
  shows "distinct (map fst (kernels s)) \<and> sessions_of s u \<le> 1"
proof -
  have "distinct (map fst (kernels s))"
    using reachable_one_per_owner [OF assms] by (simp add: one_per_owner_def)
  then show ?thesis
    using distinct_filter_le1 [of "map fst (kernels s)" u]
    by (simp only: sessions_of_def simp_thms)
qed

lemma reachable_get_or_create_kernel:
  assumes "reachable s"
  shows "reachable (snd (get_or_create_kernel e s u wd))"
proof -
  have b: "reachable (snd (get_or_create_begin e s u wd))"
    using assms by (rule r_begin)
  from get_or_create_kernel_split [of e s u wd] show ?thesis
  proof
    assume "snd (get_or_create_kernel e s u wd) = snd (get_or_create_begin e s u wd)"
    with b show ?thesis by simp
  next
    assume "\<exists>km. snd (get_or_create_kernel e s u wd)
         = snd (get_or_create_finish e (snd (get_or_create_begin e s u wd)) u wd km)"
    then obtain km where "snd (get_or_create_kernel e s u wd)
         = snd (get_or_create_finish e (snd (get_or_create_begin e s u wd)) u wd km)" ..
    with r_finish [OF b, of e u wd km] show ?thesis by simp
  qed
qed

text \<open>
  C10. The empty manager satisfies \<open>table_inv\<close> (the owners with a backend are the owners
  with a timestamp, and the owners with a working directory are among them), each
  operation of the session table keeps it, and so every reachable state satisfies it.
\<close>

theorem table_inv_preserved:
  "table_inv (KernelManager_init timeout_minutes max_kernels)
   \<and> (table_inv s \<longrightarrow>
        table_inv (snd (get_or_create_begin e s u wd))
        \<and> table_inv (snd (get_or_create_finish e s u wd km))
        \<and> table_inv (snd (get_or_create_kernel e s u wd))
        \<and> table_inv (snd (cleanup_kernel sd s u))
        \<and> table_inv (snd (cleanup_expired_kernels e s))
        \<and> table_inv (snd (periodic_cleanup ws s))
        \<and> table_inv (snd (shutdown_all sd s)))
   \<and> (reachable s \<longrightarrow> table_inv s)"
proof (intro conjI impI)
  show "table_inv (KernelManager_init timeout_minutes max_kernels)"
    by (simp add: KernelManager_init_def table_inv_def owners_def)
next
  assume "table_inv s"
  then show "table_inv (snd (get_or_create_begin e s u wd))" by (rule begin_table_inv)
next
  assume "table_inv s"
  then show "table_inv (snd (get_or_create_finish e s u wd km))" by (rule finish_table_inv)
next
  assume "table_inv s"
  then show "table_inv (snd (get_or_create_kernel e s u wd))"
    by (rule get_or_create_kernel_table_inv)
next
  assume "table_inv s"
  then show "table_inv (snd (cleanup_kernel sd s u))" by (rule cleanup_kernel_inv(2))
next
  assume "table_inv s"
  then show "table_inv (snd (cleanup_expired_kernels e s))"
    by (rule cleanup_expired_kernels_table_inv)
next
  assume "table_inv s"
  then show "table_inv (snd (periodic_cleanup ws s))" by (rule periodic_cleanup_table_inv)
next
  assume "table_inv s"
  then show "table_inv (snd (shutdown_all sd s))" by (rule shutdown_all_table_inv)
next
  assume "reachable s"
  then show "table_inv s" by (rule reachable_table_inv)
qed

section \<open>Resolving an owner that holds an entry\<close>

lemmas run_defs =
  get_or_create_kernel_def get_or_create_begin_def start_backend_def
  get_or_create_finish_def reuse_or_expire_def cleanup_kernel_def user_kernel_count_def
  has_key_def emit_def KernelManager_init_def ex_env_def ex_table_def Let_def

lemma finish_timeout:
  "wait_for_ready e = TimedOut \<Longrightarrow>
   get_or_create_finish e s u wd km =
     (Raised (case shutdown_error e km of None \<Rightarrow> BackendStartTimeout
              | Some x \<Rightarrow> BackendError x),
      s\<lparr>effects := effects s @ [ShutdownKernel km False]\<rparr>)"
  by (simp add: get_or_create_finish_def emit_def split: option.splits)

lemma finish_ready:
  "wait_for_ready e = Ready \<Longrightarrow> execute_error e = None \<Longrightarrow>
   get_or_create_finish e s u wd km =
     (Returned km,
      s\<lparr>kernels := AList.update u km (kernels s),
        last_activity := AList.update u (now_stored e) (last_activity s),
        working_dirs := AList.update u wd (working_dirs s),
        effects := effects s @ [ExecuteInit km, created_log u]\<rparr>)"
  by (simp add: get_or_create_finish_def emit_def Let_def created_log_def)

lemma finish_Returned:
  "fst (get_or_create_finish e s u wd km) = Returned k \<Longrightarrow>
   k = km \<and> map_of (kernels (snd (get_or_create_finish e s u wd km))) u = Some km"
  by (auto simp: get_or_create_finish_def Let_def update_conv'
           split: waited.splits option.splits)

lemma get_or_create_kernel_after_check:
  assumes "reuse_or_expire e s u = (Returned None, s1)"
  shows "get_or_create_kernel e s u wd =
    (if max_kernels_per_user s1 \<le> user_kernel_count s1 u
     then (Raised (QuotaExceeded u (max_kernels_per_user s1)), s1)
     else (case start_backend e s1 u wd of
             (Done r, s2) \<Rightarrow> (r, s2)
           | (Awaiting km, s2) \<Rightarrow> get_or_create_finish e s2 u wd km))"
  by (simp add: get_or_create_kernel_def begin_after_check [OF assms])

lemma get_or_create_kernel_same:
  assumes "reuse_or_expire e s u = (Returned None, s1)"
      and "reuse_or_expire e s' u = (Returned None, s1)"
  shows "get_or_create_kernel e s u wd = get_or_create_kernel e s' u wd"
  by (simp only: get_or_create_kernel_after_check [OF assms(1)]
        get_or_create_kernel_after_check [OF assms(2)])

lemma get_or_create_kernel_live:
  assumes "reuse_or_expire e s u = (Returned (Some km), s1)"
  shows "get_or_create_kernel e s u wd = (Returned km, s1)"
  using assms by (simp add: get_or_create_kernel_def get_or_create_begin_def)

lemma user_kernel_count_effects [simp]:
  "user_kernel_count (s\<lparr>effects := evs\<rparr>) u = user_kernel_count s u"
  by (simp add: user_kernel_count_def)

lemma after_check_Returned:
  assumes roe: "reuse_or_expire e s u = (Returned None, s1)"
      and ret: "fst (get_or_create_kernel e s u wd) = Returned k"
  shows "k = new_kernel e \<and> map_of (kernels (snd (get_or_create_kernel e s u wd))) u = Some k"
proof (cases "start_backend e s1 u wd")
  case (Pair b s2)
  note r = get_or_create_kernel_after_check [OF roe, of wd]
  from ret have nq: "\<not> max_kernels_per_user s1 \<le> user_kernel_count s1 u"
    by (auto simp: r split: if_splits)
  show ?thesis
  proof (cases b)
    case (Done o1)
    with Pair have "fst (start_backend e s1 u wd) = Done o1" by simp
    then have "(\<exists>x. o1 = Raised (OSError x)) \<or> (\<exists>x. o1 = Raised (BackendError x))"
      by (rule start_backend_Done)
    moreover from ret nq Pair Done have "o1 = Returned k" by (simp add: r)
    ultimately show ?thesis by auto
  next
    case (Awaiting km)
    with Pair have "fst (start_backend e s1 u wd) = Awaiting km" by simp
    then have km: "km = new_kernel e" using start_backend_Awaiting by blast
    from nq Pair Awaiting
    have g: "get_or_create_kernel e s u wd = get_or_create_finish e s2 u wd km"
      by (simp add: r)
    with ret have "fst (get_or_create_finish e s2 u wd km) = Returned k" by simp
    then have "k = km
        \<and> map_of (kernels (snd (get_or_create_finish e s2 u wd km))) u = Some km"
      by (rule finish_Returned)
    with g km show ?thesis by simp
  qed
qed

lemma after_check_ok:
  assumes roe: "reuse_or_expire e s u = (Returned None, s1)"
      and "user_kernel_count s1 u < max_kernels_per_user s1" and "starts e"
      and "wait_for_ready e = Ready" and "execute_error e = None"
  shows "get_or_create_kernel e s u wd =
    (Returned (new_kernel e),
     s1\<lparr>kernels := AList.update u (new_kernel e) (kernels s1),
        last_activity := AList.update u (now_stored e) (last_activity s1),
        working_dirs := AList.update u wd (working_dirs s1),
        effects := effects s1 @ create_events u wd (new_kernel e)
                   @ [ExecuteInit (new_kernel e), created_log u]\<rparr>)"
  using assms(2-5)
  by (simp add: get_or_create_kernel_after_check [OF roe] start_backend_ok finish_ready)

text \<open>
  C3, as stated, fails: with a limit of 1, an expired session of \<open>alice\<close> and a session
  of \<open>alice2\<close> in the table, the call for \<open>alice\<close> destroys the old session and raises
  \<open>QuotaExceeded\<close>: no new session is created or returned.
\<close>

theorem expired_not_recreated_counterexample:
  "map_of (kernels ex_two) ''alice'' = Some 1
   \<and> map_of (last_activity ex_two) ''alice'' = Some 0
   \<and> \<not> now_check (ex_env 120000000 True) - 0 < timeout ex_two
   \<and> get_or_create_kernel (ex_env 120000000 True) ex_two ''alice'' ''/tmp/alice''
       = (Raised (QuotaExceeded ''alice'' 1),
          \<lparr>kernels = [(''alice2'', 3)], last_activity = [(''alice2'', 100000000)],
           working_dirs = [(''alice2'', ''/tmp/alice2'')],
           timeout = 60000000, max_kernels_per_user = 1, cleanup_task = None,
           effects = [LogInfo ''Kernel expired for user alice, creating new one'',
                      ShutdownKernel 1 True, LogInfo ''Shut down kernel for user alice'']\<rparr>)"
  by (simp add: run_defs ex_two_def)

text \<open>
  C3, amended. For an owner with an entry (a backend \<open>km\<close> and a timestamp \<open>la\<close>), where
  the object that a creation would build is not \<open>km\<close>: if \<open>now - la\<close> is less than the
  idle timeout, the call returns \<open>km\<close>, stores the new reading of the clock as the owner's
  timestamp and only logs a line. Otherwise \<open>cleanup_kernel\<close> first destroys the old
  session (shutdown call, then removal of the owner's three entries), and the call goes on
  exactly as for an owner without an entry: a backend it returns is the new one, differs
  from \<open>km\<close> and is the one registered; and it does return one when the quota check
  passes, the backend starts and becomes ready and the bootstrap code is accepted, the
  events of the creation following those of the teardown. So the call returns \<open>km\<close> if and
  only if the entry is within the idle timeout.
\<close>

theorem resolve_existing_owner:
  assumes k: "map_of (kernels s) u = Some km"
      and l: "map_of (last_activity s) u = Some la"
      and fresh: "new_kernel e \<noteq> km"
  shows
    "(now_check e - la < timeout s \<longrightarrow>
        get_or_create_kernel e s u wd =
          (Returned km,
           s\<lparr>last_activity := AList.update u (now_refresh e) (last_activity s),
             effects := effects s @ [LogInfo (''Reusing kernel for user '' @ u)]\<rparr>))
     \<and> (\<not> now_check e - la < timeout s \<longrightarrow>
          (let s1 = snd (cleanup_kernel (shutdown_error e) (emit (expired_log u) s) u);
               r = get_or_create_kernel e s u wd
           in r = get_or_create_kernel e s1 u wd
              \<and> u \<notin> owners (kernels s1) \<and> u \<notin> owners (last_activity s1)
              \<and> u \<notin> owners (working_dirs s1)
              \<and> effects s1 = effects s @ [expired_log u, ShutdownKernel km True,
                                           shutdown_log (shutdown_error e) u km]
              \<and> (\<forall>k'. fst r = Returned k' \<longrightarrow>
                    k' = new_kernel e \<and> k' \<noteq> km
                    \<and> map_of (kernels (snd r)) u = Some k')
              \<and> (user_kernel_count s1 u < max_kernels_per_user s \<and> starts e
                  \<and> wait_for_ready e = Ready \<and> execute_error e = None \<longrightarrow>
                    fst r = Returned (new_kernel e)
                    \<and> effects (snd r) = effects s1 @ create_events u wd (new_kernel e)
                         @ [ExecuteInit (new_kernel e), created_log u])))
     \<and> (fst (get_or_create_kernel e s u wd) = Returned km
          \<longleftrightarrow> now_check e - la < timeout s)"
proof (cases rule: reuse_or_expire_cases [of s u e])
  case absent
  with k show ?thesis by simp
next
  case (broken km')
  with l show ?thesis by simp
next
  case (live km' la')
  with k l have [simp]: "km' = km" "la' = la" by simp_all
  from live(3,4) show ?thesis
    by (simp add: get_or_create_kernel_live)
next
  case (expired km' la')
  with k l have [simp]: "km' = km" "la' = la" by simp_all
  let ?S1 = "s\<lparr>kernels := AList.delete u (kernels s),
            last_activity := AList.delete u (last_activity s),
            working_dirs := AList.delete u (working_dirs s),
            effects := effects s @ [expired_log u, ShutdownKernel km True,
                                    shutdown_log (shutdown_error e) u km]\<rparr>"
  let ?s1 = "snd (cleanup_kernel (shutdown_error e) (emit (expired_log u) s) u)"
  let ?r = "get_or_create_kernel e s u wd"
  have old: "\<not> now_check e - la < timeout s" using expired(3) by simp
  have roe: "reuse_or_expire e s u = (Returned None, ?S1)" using expired(4) by simp
  have "map_of (kernels (emit (expired_log u) s)) u = Some km" using k by simp
  moreover have "u \<in> owners (last_activity (emit (expired_log u) s))"
    using l by (simp add: map_of_Some_owners)
  ultimately have s1: "?s1 = ?S1"
    by (simp add: cleanup_kernel_present emit_def)
  have gone: "u \<notin> owners (kernels ?S1)" "u \<notin> owners (last_activity ?S1)"
    "u \<notin> owners (working_dirs ?S1)"
    by (simp_all add: owners_delete)
  have "map_of (kernels ?S1) u = None" using gone(1) by (simp add: map_of_None_owners)
  then have roe1: "reuse_or_expire e ?S1 u = (Returned None, ?S1)"
    by (simp add: reuse_or_expire_def)
  have same: "?r = get_or_create_kernel e ?S1 u wd"
    using roe roe1 by (rule get_or_create_kernel_same)
  have ret: "k' = new_kernel e \<and> k' \<noteq> km \<and> map_of (kernels (snd ?r)) u = Some k'"
    if "fst ?r = Returned k'" for k'
    using after_check_Returned [OF roe that] fresh by simp
  have ok: "fst ?r = Returned (new_kernel e)
      \<and> effects (snd ?r) = effects ?S1 @ create_events u wd (new_kernel e)
              @ [ExecuteInit (new_kernel e), created_log u]"
    if "user_kernel_count ?S1 u < max_kernels_per_user s" "starts e"
      "wait_for_ready e = Ready" "execute_error e = None"
  proof -
    have "user_kernel_count ?S1 u < max_kernels_per_user ?S1" using that(1) by simp
    from after_check_ok [OF roe this that(2,3,4), of wd] show ?thesis by simp
  qed
  have notold: "fst ?r \<noteq> Returned km"
    using ret [of km] by blast
  have eff: "effects ?S1 = effects s @ [expired_log u, ShutdownKernel km True,
                                           shutdown_log (shutdown_error e) u km]"
    by simp
  have B: "let s1 = ?s1; r = get_or_create_kernel e s u wd
           in r = get_or_create_kernel e s1 u wd
              \<and> u \<notin> owners (kernels s1) \<and> u \<notin> owners (last_activity s1)
              \<and> u \<notin> owners (working_dirs s1)
              \<and> effects s1 = effects s @ [expired_log u, ShutdownKernel km True,
                                           shutdown_log (shutdown_error e) u km]
              \<and> (\<forall>k'. fst r = Returned k' \<longrightarrow>
                    k' = new_kernel e \<and> k' \<noteq> km
                    \<and> map_of (kernels (snd r)) u = Some k')
              \<and> (user_kernel_count s1 u < max_kernels_per_user s \<and> starts e
                  \<and> wait_for_ready e = Ready \<and> execute_error e = None \<longrightarrow>
                    fst r = Returned (new_kernel e)
                    \<and> effects (snd r) = effects s1 @ create_events u wd (new_kernel e)
                         @ [ExecuteInit (new_kernel e), created_log u])"
    unfolding Let_def s1 using same gone eff ret ok by blast
  from old B notold show ?thesis by blast
qed

section \<open>The quota check\<close>

lemma prefix_table_value:
  "prefix_table =
     \<lparr>kernels = [(''alice2'', 2)], last_activity = [(''alice2'', 2)],
      working_dirs = [(''alice2'', ''/tmp/alice2'')],
      timeout = 60000000, max_kernels_per_user = 1,
      cleanup_task = None,
      effects = [Mkdir ''/tmp/alice2'',
                 LogInfo ''Creating new kernel for user alice2 in /tmp/alice2'',
                 StartKernel 2 ''/tmp/alice2'', StartChannels 2, ExecuteInit 2,
                 LogInfo ''Kernel created successfully for user alice2'']\<rparr>"
  by (simp add: prefix_table_def run_defs)

lemma reachable_prefix_table: "reachable prefix_table"
  unfolding prefix_table_def by (rule reachable_get_or_create_kernel) (rule r_init)

text \<open>
  C2, as stated, fails: with a limit of 1 and the single session of \<open>alice2\<close> in the
  table, the call for \<open>alice\<close>, who holds no session, is refused with \<open>QuotaExceeded\<close>.
\<close>

theorem quota_exact_counterexample:
  "fst (get_or_create_kernel (ex_env 10 True) prefix_table ''alice'' ''/tmp/alice'')
     = Raised (QuotaExceeded ''alice'' 1)
   \<and> sessions_of prefix_table ''alice'' = 0
   \<and> max_kernels_per_user prefix_table = 1"
  by (simp add: prefix_table_value run_defs sessions_of_def)

lemma reuse_or_expire_None:
  assumes "reuse_or_expire e s u = (Returned None, s1)"
  shows "max_kernels_per_user s1 = max_kernels_per_user s
      \<and> kernels s1 = AList.delete u (kernels s)"
proof (cases rule: reuse_or_expire_cases [of s u e])
  case absent
  then have "u \<notin> owners (kernels s)" by (simp add: map_of_None_owners)
  with absent assms show ?thesis by (simp add: delete_absent)
next
  case (broken km)
  with assms show ?thesis by simp
next
  case (live km la)
  with assms show ?thesis by simp
next
  case (expired km la)
  with assms show ?thesis by auto
qed

text \<open>
  C2, amended. When the call reaches the quota check (the owner holds no entry, or its
  expired entry has just been removed: state \<open>s1\<close>, where the requester has no entry) and
  the number of keys of \<open>kernels\<close> that start with the requested owner id is at or above
  the limit, the call fails with \<open>QuotaExceeded\<close> and leaves \<open>s1\<close> as it is: the sessions
  of other owners whose id extends the requested id count. In a reachable state at most
  one session is registered under the owner id itself, which is at most the limit when
  the limit is 1 or more.
\<close>

theorem quota_counts_prefix:
  assumes "reuse_or_expire e s u = (Returned None, s1)"
      and "max_kernels_per_user s
             \<le> int (length (filter (\<lambda>uid. prefix u uid) (map fst (kernels s1))))"
  shows "get_or_create_kernel e s u wd
           = (Raised (QuotaExceeded u (max_kernels_per_user s)), s1)
     \<and> kernels s1 = AList.delete u (kernels s)
     \<and> (reachable s \<longrightarrow>
          sessions_of s u \<le> 1 \<and> sessions_of s1 u = 0
          \<and> (1 \<le> max_kernels_per_user s \<longrightarrow> int (sessions_of s u) \<le> max_kernels_per_user s))"
proof -
  note s1 = reuse_or_expire_None [OF assms(1)]
  have A: "get_or_create_kernel e s u wd
           = (Raised (QuotaExceeded u (max_kernels_per_user s)), s1)"
    using s1 assms(2)
    by (simp add: get_or_create_kernel_after_check [OF assms(1)] user_kernel_count_def)
  have C: "sessions_of s u \<le> 1 \<and> sessions_of s1 u = 0
      \<and> (1 \<le> max_kernels_per_user s \<longrightarrow> int (sessions_of s u) \<le> max_kernels_per_user s)"
    if "reachable s"
  proof -
    have "u \<notin> set (map fst (kernels s1))"
      using s1 owners_delete [of u "kernels s"] by (simp add: owners_def)
    then have "filter (\<lambda>uid. uid = u) (map fst (kernels s1)) = []"
      by (auto simp: filter_empty_conv)
    then have z: "sessions_of s1 u = 0" by (simp only: sessions_of_def list.size)
    have le: "sessions_of s u \<le> 1"
      using reachable_one_per_owner [OF that] distinct_filter_le1 [of "map fst (kernels s)" u]
      by (simp only: sessions_of_def one_per_owner_def)
    then have "1 \<le> max_kernels_per_user s \<longrightarrow> int (sessions_of s u) \<le> max_kernels_per_user s"
      by linarith
    with z le show ?thesis by simp
  qed
  from A C s1 show ?thesis by blast
qed

text \<open>The amended C2 at the input of its counterexample.\<close>

theorem quota_counts_prefix_witness:
  "reuse_or_expire (ex_env 10 True) prefix_table ''alice'' = (Returned None, prefix_table)
   \<and> reachable prefix_table
   \<and> max_kernels_per_user prefix_table
        \<le> int (length (filter (\<lambda>uid. prefix ''alice'' uid) (map fst (kernels prefix_table))))
   \<and> get_or_create_kernel (ex_env 10 True) prefix_table ''alice'' ''/tmp/alice''
        = (Raised (QuotaExceeded ''alice'' (max_kernels_per_user prefix_table)), prefix_table)
   \<and> sessions_of prefix_table ''alice'' = 0"
proof -
  have h: "reuse_or_expire (ex_env 10 True) prefix_table ''alice''
             = (Returned None, prefix_table)"
    by (simp add: prefix_table_value reuse_or_expire_def)
  have c: "max_kernels_per_user prefix_table
        \<le> int (length (filter (\<lambda>uid. prefix ''alice'' uid) (map fst (kernels prefix_table))))"
    by (simp add: prefix_table_value)
  show ?thesis
    using h c reachable_prefix_table
      quota_counts_prefix [OF h c, of "''/tmp/alice''"]
    by blast
qed

section \<open>A backend that does not become ready\<close>

text \<open>
  C5, as stated, fails: when the owner holds an expired entry and the new backend does not
  become ready, the call raises \<open>BackendStartTimeout\<close> and the table is not the one the
  call started from.
\<close>

theorem start_timeout_counterexample:
  "fst (get_or_create_kernel (ex_env 120000000 False) ex_table ''alice'' ''/tmp/alice'')
     = Raised BackendStartTimeout
   \<and> kernels (snd (get_or_create_kernel (ex_env 120000000 False) ex_table
                     ''alice'' ''/tmp/alice'')) \<noteq> kernels ex_table"
  by (simp add: run_defs)

lemma begin_Awaiting:
  assumes "fst (get_or_create_begin e s u wd) = Awaiting km"
  obtains s1 where "reuse_or_expire e s u = (Returned None, s1)"
    and "\<not> max_kernels_per_user s1 \<le> user_kernel_count s1 u"
    and "starts e" and "km = new_kernel e"
proof (cases "reuse_or_expire e s u")
  case (Pair r s1)
  show ?thesis
  proof (cases r)
    case (Raised x)
    with Pair assms show ?thesis by (simp add: get_or_create_begin_def)
  next
    case (Returned o1)
    show ?thesis
    proof (cases o1)
      case (Some k)
      with Pair Returned assms show ?thesis by (simp add: get_or_create_begin_def)
    next
      case None
      with Pair Returned have roe: "reuse_or_expire e s u = (Returned None, s1)" by simp
      note b = begin_after_check [OF roe, of wd]
      from assms have nq: "\<not> max_kernels_per_user s1 \<le> user_kernel_count s1 u"
        by (auto simp: b split: if_splits)
      with assms have "fst (start_backend e s1 u wd) = Awaiting km" by (simp add: b)
      then have "starts e \<and> km = new_kernel e" by (rule start_backend_Awaiting)
      with roe nq show ?thesis using that by blast
    qed
  qed
qed

text \<open>
  C5, amended. When the call has started a backend \<open>km\<close>, the wait for its ready state
  runs into the deadline and the shutdown of \<open>km\<close> returns, the call shuts \<open>km\<close> down, as
  the last thing it does, and raises \<open>BackendStartTimeout\<close>. No entry is registered for the
  owner. The table is the one the call started from if the owner held no entry; if the
  owner held an (expired) entry, its three entries have been removed and the other entries
  are unchanged.
\<close>

theorem backend_start_timeout:
  assumes "fst (get_or_create_begin e s u wd) = Awaiting km"
      and "wait_for_ready e = TimedOut"
      and "shutdown_error e km = None"
  shows "fst (get_or_create_kernel e s u wd) = Raised BackendStartTimeout
     \<and> km = new_kernel e
     \<and> (\<exists>evs. effects (snd (get_or_create_kernel e s u wd)) =
                 effects s @ evs @ [StartKernel km wd, StartChannels km,
                                    ShutdownKernel km False])
     \<and> u \<notin> owners (kernels (snd (get_or_create_kernel e s u wd)))
     \<and> kernels (snd (get_or_create_kernel e s u wd)) = AList.delete u (kernels s)
     \<and> (u \<notin> owners (kernels s) \<longrightarrow>
          kernels (snd (get_or_create_kernel e s u wd)) = kernels s
          \<and> last_activity (snd (get_or_create_kernel e s u wd)) = last_activity s
          \<and> working_dirs (snd (get_or_create_kernel e s u wd)) = working_dirs s)
     \<and> (u \<in> owners (kernels s) \<longrightarrow>
          last_activity (snd (get_or_create_kernel e s u wd))
            = AList.delete u (last_activity s)
          \<and> working_dirs (snd (get_or_create_kernel e s u wd))
            = AList.delete u (working_dirs s))"
proof -
  from assms(1) obtain s1 where roe: "reuse_or_expire e s u = (Returned None, s1)"
    and nq: "\<not> max_kernels_per_user s1 \<le> user_kernel_count s1 u"
    and st: "starts e" and km: "km = new_kernel e"
    by (rule begin_Awaiting)
  let ?r = "get_or_create_kernel e s u wd"
  have g: "?r = (Raised BackendStartTimeout,
      s1\<lparr>effects := effects s1 @ create_events u wd km @ [ShutdownKernel km False]\<rparr>)"
    using nq st km assms(2,3)
    by (simp add: get_or_create_kernel_after_check [OF roe] start_backend_ok finish_timeout)
  show ?thesis
  proof (cases rule: reuse_or_expire_cases [of s u e])
    case absent
    with roe have [simp]: "s1 = s" by simp
    from absent have n: "u \<notin> owners (kernels s)" by (simp add: map_of_None_owners)
    have "effects (snd ?r) =
        effects s @ [Mkdir wd, LogInfo (''Creating new kernel for user '' @ u @ '' in '' @ wd)]
          @ [StartKernel km wd, StartChannels km, ShutdownKernel km False]"
      by (simp add: g create_events_def)
    then have ev: "\<exists>evs. effects (snd ?r) =
        effects s @ evs @ [StartKernel km wd, StartChannels km, ShutdownKernel km False]"
      by blast
    from n km ev show ?thesis by (simp add: g delete_absent)
  next
    case (broken km')
    with roe show ?thesis by simp
  next
    case (live km' la)
    with roe show ?thesis by simp
  next
    case (expired km' la)
    with roe have s1: "s1 = s\<lparr>kernels := AList.delete u (kernels s),
            last_activity := AList.delete u (last_activity s),
            working_dirs := AList.delete u (working_dirs s),
            effects := effects s @ [expired_log u, ShutdownKernel km' True,
                                    shutdown_log (shutdown_error e) u km']\<rparr>"
      by simp
    have y: "u \<in> owners (kernels s)" using expired(1) by (rule map_of_Some_owners)
    have "effects (snd ?r) =
        effects s @ [expired_log u, ShutdownKernel km' True,
                     shutdown_log (shutdown_error e) u km', Mkdir wd,
                     LogInfo (''Creating new kernel for user '' @ u @ '' in '' @ wd)]
          @ [StartKernel km wd, StartChannels km, ShutdownKernel km False]"
      by (simp add: g s1 create_events_def)
    then have ev: "\<exists>evs. effects (snd ?r) =
        effects s @ evs @ [StartKernel km wd, StartChannels km, ShutdownKernel km False]"
      by blast
    have rest: "fst ?r = Raised BackendStartTimeout
       \<and> kernels (snd ?r) = AList.delete u (kernels s)
       \<and> last_activity (snd ?r) = AList.delete u (last_activity s)
       \<and> working_dirs (snd ?r) = AList.delete u (working_dirs s)"
      by (simp add: g s1)
    then have "u \<notin> owners (kernels (snd ?r))" by (simp add: owners_delete)
    with rest km ev y show ?thesis by blast
  qed
qed

text \<open>The amended C5 at the input of its counterexample.\<close>

theorem backend_start_timeout_witness:
  "fst (get_or_create_begin (ex_env 120000000 False) ex_table ''alice'' ''/tmp/alice'')
     = Awaiting 2
   \<and> wait_for_ready (ex_env 120000000 False) = TimedOut
   \<and> shutdown_error (ex_env 120000000 False) 2 = None
   \<and> fst (get_or_create_kernel (ex_env 120000000 False) ex_table ''alice'' ''/tmp/alice'')
       = Raised BackendStartTimeout
   \<and> ''alice'' \<notin> owners (kernels (snd (get_or_create_kernel (ex_env 120000000 False)
                                          ex_table ''alice'' ''/tmp/alice'')))"
proof -
  have h1: "fst (get_or_create_begin (ex_env 120000000 False) ex_table ''alice'' ''/tmp/alice'')
     = Awaiting 2"
    by (simp add: run_defs)
  have h2: "wait_for_ready (ex_env 120000000 False) = TimedOut"
    and h3: "shutdown_error (ex_env 120000000 False) 2 = None"
    by (simp_all add: ex_env_def)
  show ?thesis
    using h1 h2 h3 backend_start_timeout [OF h1 h2 h3] by blast
qed

section \<open>The reaper loop\<close>

lemma periodic_cleanup_with_status:
  assumes "\<And>e s x s'. sweep e s = (Raised x, s') \<Longrightarrow> is_Exception x \<or> x = CancelledError"
  shows "fst (periodic_cleanup_with sweep ws s) \<noteq> Propagated y"
proof (induction ws arbitrary: s)
  case Nil
  show ?case by simp
next
  case (Cons w ws)
  show ?case
  proof (cases w)
    case Cancel
    then show ?thesis by simp
  next
    case (Wake e)
    show ?thesis
    proof (cases "sweep e s")
      case (Pair r s1)
      show ?thesis
      proof (cases r)
        case (Returned u)
        with Pair Wake Cons.IH show ?thesis by simp
      next
        case (Raised x)
        with Pair have "is_Exception x \<or> x = CancelledError" using assms by blast
        with Pair Raised Wake Cons.IH show ?thesis by auto
      qed
    qed
  qed
qed

lemma periodic_cleanup_with_cancel:
  assumes "\<And>e s x s'. sweep e s = (Raised x, s') \<Longrightarrow> is_Exception x"
      and "Cancel \<notin> set ws"
  shows "fst (periodic_cleanup_with sweep ws s) = AtSleep
    \<and> periodic_cleanup_with sweep (ws @ Cancel # ws') s
        = (Exited, snd (periodic_cleanup_with sweep ws s))"
  using assms(2)
proof (induction ws arbitrary: s)
  case Nil
  show ?case by simp
next
  case (Cons w ws)
  then obtain e where w: "w = Wake e" by (cases w) auto
  from Cons.prems have nc: "Cancel \<notin> set ws" by simp
  show ?case
  proof (cases "sweep e s")
    case (Pair r s1)
    show ?thesis
    proof (cases r)
      case (Returned u)
      with Pair w Cons.IH [OF nc] show ?thesis by simp
    next
      case (Raised x)
      with Pair have ex: "is_Exception x" using assms(1) by blast
      then have "x \<noteq> CancelledError" by auto
      with ex Pair Raised w Cons.IH [OF nc] show ?thesis by simp
    qed
  qed
qed

text \<open>
  C9. Whatever the sweeps do, as long as what they raise is an \<open>Exception\<close> or
  \<open>CancelledError\<close>, no exception leaves the loop. If the sweeps raise only \<open>Exception\<close>s
  the loop is suspended in its sleep after any number of wake-ups without a cancellation,
  and a cancellation delivered then makes it exit through \<open>break\<close> with the state it had.
  A sweep that raises an \<open>Exception\<close> is logged as an error and the loop goes on with the
  coming wake-ups. A cancellation at the first sleep exits with the state unchanged. With
  \<open>cleanup_expired_kernels\<close> as the sweep, no exception leaves the loop.
\<close>

theorem periodic_cleanup_spec:
  "((\<forall>e s x s'. sweep e s = (Raised x, s') \<longrightarrow> is_Exception x \<or> x = CancelledError)
      \<longrightarrow> (\<forall>y. fst (periodic_cleanup_with sweep ws s) \<noteq> Propagated y))
   \<and> ((\<forall>e s x s'. sweep e s = (Raised x, s') \<longrightarrow> is_Exception x) \<and> Cancel \<notin> set ws
      \<longrightarrow> fst (periodic_cleanup_with sweep ws s) = AtSleep
          \<and> periodic_cleanup_with sweep (ws @ Cancel # ws') s
              = (Exited, snd (periodic_cleanup_with sweep ws s)))
   \<and> (sweep e s = (Raised x, s') \<and> is_Exception x
      \<longrightarrow> periodic_cleanup_with sweep (Wake e # ws) s
          = periodic_cleanup_with sweep ws
              (emit (LogError (''Error in cleanup task: '' @ exn_text x)) s'))
   \<and> periodic_cleanup_with sweep (Cancel # ws) s = (Exited, s)
   \<and> (\<forall>y. fst (periodic_cleanup ws s) \<noteq> Propagated y)"
proof -
  have A: "\<forall>y. fst (periodic_cleanup_with sweep ws s) \<noteq> Propagated y"
    if "\<forall>e s x s'. sweep e s = (Raised x, s') \<longrightarrow> is_Exception x \<or> x = CancelledError"
    using that periodic_cleanup_with_status [of sweep ws s] by blast
  have B: "fst (periodic_cleanup_with sweep ws s) = AtSleep
          \<and> periodic_cleanup_with sweep (ws @ Cancel # ws') s
              = (Exited, snd (periodic_cleanup_with sweep ws s))"
    if "\<forall>e s x s'. sweep e s = (Raised x, s') \<longrightarrow> is_Exception x" "Cancel \<notin> set ws"
    using that periodic_cleanup_with_cancel [of sweep ws s ws'] by blast
  have C: "periodic_cleanup_with sweep (Wake e # ws) s
          = periodic_cleanup_with sweep ws
              (emit (LogError (''Error in cleanup task: '' @ exn_text x)) s')"
    if "sweep e s = (Raised x, s')" "is_Exception x"
  proof -
    from that(2) have "x \<noteq> CancelledError" by auto
    with that show ?thesis by simp
  qed
  have D: "periodic_cleanup_with sweep (Cancel # ws) s = (Exited, s)" by simp
  have "cleanup_expired_kernels e s = (Raised x, s') \<Longrightarrow> is_Exception x" for e s x s'
    using cleanup_expired_kernels_raises [of e s x] by auto
  then have E: "\<forall>y. fst (periodic_cleanup ws s) \<noteq> Propagated y"
    unfolding periodic_cleanup_def
    using periodic_cleanup_with_status [of cleanup_expired_kernels ws s] by blast
  from A B C D E show ?thesis by blast
qed

theorem periodic_cleanup_spec_witness:
  "Cancel \<notin> set [Wake (ex_env 0 True), Wake (ex_env 60000000 True)]
   \<and> fst (periodic_cleanup_with failing_sweep
            [Wake (ex_env 0 True), Wake (ex_env 60000000 True)] ex_table) = AtSleep
   \<and> periodic_cleanup_with failing_sweep
        ([Wake (ex_env 0 True), Wake (ex_env 60000000 True)] @ Cancel # []) ex_table
       = (Exited, snd (periodic_cleanup_with failing_sweep
                         [Wake (ex_env 0 True), Wake (ex_env 60000000 True)] ex_table))"
proof -
  have h: "\<forall>e s x s'. failing_sweep e s = (Raised x, s') \<longrightarrow> is_Exception x"
    by (simp add: failing_sweep_def)
  have c: "Cancel \<notin> set [Wake (ex_env 0 True), Wake (ex_env 60000000 True)]"
    by simp
  show ?thesis
    using h c
      periodic_cleanup_spec [of failing_sweep
        "[Wake (ex_env 0 True), Wake (ex_env 60000000 True)]" ex_table "[]"]
    by blast
qed

lemma failing_sweep_logged:
  "effects (snd (periodic_cleanup_with failing_sweep
                  [Wake (ex_env 0 True), Wake (ex_env 60000000 True), Cancel] ex_table))
   = [LogError ''Error in cleanup task: boom'', LogError ''Error in cleanup task: boom'']"
  by (simp add: failing_sweep_def ex_table_def emit_def)

section \<open>The theorems at concrete inputs\<close>

theorem shutdown_all_spec_witness:
  "table_inv ex_table
   \<and> fst (shutdown_all (\<lambda>_. None) ex_table) = Some (Returned ())
   \<and> kernels (snd (shutdown_all (\<lambda>_. None) ex_table)) = []
   \<and> last_activity (snd (shutdown_all (\<lambda>_. None) ex_table)) = []
   \<and> working_dirs (snd (shutdown_all (\<lambda>_. None) ex_table)) = []
   \<and> ShutdownKernel 1 True \<in> set (effects (snd (shutdown_all (\<lambda>_. None) ex_table)))
   \<and> cleanup_task (snd (shutdown_all (\<lambda>_. None) ex_table)) = Some Finished"
proof -
  have k: "map_of (kernels ex_table) ''alice'' = Some 1"
    and t: "cleanup_task ex_table = Some Sleeping"
    by (simp_all add: ex_table_def)
  show ?thesis
    using k t table_inv_ex_table
      shutdown_all_spec [OF table_inv_ex_table, of "\<lambda>_. None"]
    by blast
qed

theorem one_session_per_owner_witness:
  "reachable prefix_table
   \<and> kernels prefix_table = [(''alice2'', 2)]
   \<and> distinct (map fst (kernels prefix_table))
   \<and> sessions_of prefix_table ''alice2'' \<le> 1"
proof -
  have v: "kernels prefix_table = [(''alice2'', 2)]"
    by (simp add: prefix_table_value)
  show ?thesis
    using v reachable_prefix_table
      one_session_per_owner [OF reachable_prefix_table, of "''alice2''"]
    by blast
qed

theorem table_inv_preserved_witness:
  "table_inv ex_table
   \<and> table_inv (snd (get_or_create_kernel (ex_env 120000000 True) ex_table
                      ''alice'' ''/tmp/alice''))
   \<and> table_inv (snd (cleanup_kernel (\<lambda>_. Some ''boom'') ex_table ''alice''))
   \<and> table_inv (snd (cleanup_expired_kernels (ex_env 120000000 True) ex_table))
   \<and> table_inv (snd (shutdown_all (\<lambda>_. None) ex_table))
   \<and> reachable prefix_table \<and> table_inv prefix_table"
  using table_inv_ex_table reachable_prefix_table
    table_inv_preserved [where s = ex_table and e = "ex_env 120000000 True"
      and u = "''alice''" and wd = "''/tmp/alice''" and sd = "\<lambda>_. Some ''boom''"]
    table_inv_preserved [where s = ex_table and sd = "\<lambda>_. None"]
    table_inv_preserved [where s = prefix_table]
  by blast

theorem resolve_existing_owner_witness:
  "map_of (kernels ex_table) ''alice'' = Some 1
   \<and> map_of (last_activity ex_table) ''alice'' = Some 0
   \<and> new_kernel (ex_env 30000000 True) \<noteq> 1
   \<and> now_check (ex_env 30000000 True) - 0 < timeout ex_table
   \<and> get_or_create_kernel (ex_env 30000000 True) ex_table ''alice'' ''/tmp/alice'' =
       (Returned 1,
        ex_table\<lparr>last_activity := AList.update ''alice'' (now_refresh (ex_env 30000000 True))
                                     (last_activity ex_table),
                 effects := effects ex_table
                            @ [LogInfo (''Reusing kernel for user '' @ ''alice'')]\<rparr>)
   \<and> \<not> now_check (ex_env 120000000 True) - 0 < timeout ex_table
   \<and> fst (get_or_create_kernel (ex_env 120000000 True) ex_table ''alice'' ''/tmp/alice'')
       \<noteq> Returned 1
   \<and> fst (get_or_create_kernel (ex_env 120000000 True) ex_table ''alice'' ''/tmp/alice'')
       = Returned (new_kernel (ex_env 120000000 True))"
proof -
  have k: "map_of (kernels ex_table) ''alice'' = Some 1"
    and l: "map_of (last_activity ex_table) ''alice'' = Some 0"
    by (simp_all add: ex_table_def)
  have f1: "new_kernel (ex_env 30000000 True) \<noteq> 1"
    and f2: "new_kernel (ex_env 120000000 True) \<noteq> 1"
    by (simp_all add: ex_env_def)
  have t1: "now_check (ex_env 30000000 True) - 0 < timeout ex_table"
    and t2: "\<not> now_check (ex_env 120000000 True) - 0 < timeout ex_table"
    by (simp_all add: ex_env_def ex_table_def)
  have ok: "user_kernel_count
        (snd (cleanup_kernel (shutdown_error (ex_env 120000000 True))
                (emit (expired_log ''alice'') ex_table) ''alice'')) ''alice''
        < max_kernels_per_user ex_table
      \<and> starts (ex_env 120000000 True)
      \<and> wait_for_ready (ex_env 120000000 True) = Ready
      \<and> execute_error (ex_env 120000000 True) = None"
    by (simp add: run_defs starts_def expired_log_def)
  show ?thesis
    using k l f1 t1 t2 ok
      resolve_existing_owner [OF k l f1, of "''/tmp/alice''"]
      resolve_existing_owner [OF k l f2, of "''/tmp/alice''", unfolded Let_def]
    by blast
qed

lemma expired_alice_recreated:
  "get_or_create_kernel (ex_env 120000000 True) ex_table ''alice'' ''/tmp/alice'' =
     (Returned 2,
      \<lparr>kernels = [(''alice'', 2)], last_activity = [(''alice'', 120000002)],
       working_dirs = [(''alice'', ''/tmp/alice'')],
       timeout = 60000000, max_kernels_per_user = 2, cleanup_task = Some Sleeping,
       effects = [LogInfo ''Kernel expired for user alice, creating new one'',
                  ShutdownKernel 1 True, LogInfo ''Shut down kernel for user alice'',
                  Mkdir ''/tmp/alice'',
                  LogInfo ''Creating new kernel for user alice in /tmp/alice'',
                  StartKernel 2 ''/tmp/alice'', StartChannels 2, ExecuteInit 2,
                  LogInfo ''Kernel created successfully for user alice'']\<rparr>)"
  by (simp add: run_defs)

end
